theory Spec2Isabelle
  imports Main
begin

section \<open>JavaScript string primitives used by the library engine\<close>

text \<open>
  Strings are character lists. The source manipulates them with the standard
  \<^verbatim>\<open>String.prototype\<close> methods; each one used is given here with the behaviour
  it has at the argument shapes the source passes.
\<close>

abbreviation LF :: char where "LF \<equiv> CHR 0x0A"
abbreviation CR :: char where "CR \<equiv> CHR 0x0D"
abbreviation BSL :: char where "BSL \<equiv> CHR 0x5C"

text \<open>
  \<^verbatim>\<open>String.prototype.toLowerCase\<close> folds every cased letter of Unicode and is not defined
  here: it is a service of the platform (see the record \<open>platform\<close> below), and the
  engine is modelled for any such function. On a string of ASCII characters it folds the
  letters A to Z and leaves the rest, which is all that the concrete runs below use.
\<close>

definition asciiLowerChar :: "char \<Rightarrow> char" where
  "asciiLowerChar c =
     (let n = (of_char c :: nat) in if 65 \<le> n \<and> n \<le> 90 then char_of (n + 32) else c)"

definition asciiLowerCase :: "string \<Rightarrow> string" where
  "asciiLowerCase s = map asciiLowerChar s"

definition isAscii :: "string \<Rightarrow> bool" where
  "isAscii s = list_all (\<lambda>c. (of_char c :: nat) < 128) s"

definition startsWith :: "string \<Rightarrow> string \<Rightarrow> bool" where
  "startsWith s p = (take (length p) s = p)"

definition endsWith :: "string \<Rightarrow> string \<Rightarrow> bool" where
  "endsWith s p = (length p \<le> length s \<and> drop (length s - length p) s = p)"

fun includes_str :: "string \<Rightarrow> string \<Rightarrow> bool" where
  "includes_str [] p = (p = [])"
| "includes_str (c # cs) p = (startsWith (c # cs) p \<or> includes_str cs p)"

text \<open>\<^verbatim>\<open>s.split(c)\<close> for a one-character separator: never empty, \<^verbatim>\<open>"".split(c) = [""]\<close>.\<close>

fun split_chr :: "char \<Rightarrow> string \<Rightarrow> string list" where
  "split_chr c [] = [[]]"
| "split_chr c (x # xs) =
     (if x = c then [] # split_chr c xs
      else (case split_chr c xs of [] \<Rightarrow> [[x]] | y # ys \<Rightarrow> (x # y) # ys))"

text \<open>\<^verbatim>\<open>parts.join(sep)\<close>.\<close>

fun join_str :: "string \<Rightarrow> string list \<Rightarrow> string" where
  "join_str sep [] = []"
| "join_str sep [x] = x"
| "join_str sep (x # y # ys) = x @ sep @ join_str sep (y # ys)"

text \<open>\<^verbatim>\<open>s.indexOf(c, from)\<close> and \<^verbatim>\<open>s.lastIndexOf(c)\<close>: the index, or \<open>-1\<close>.\<close>

definition indexOf :: "string \<Rightarrow> char \<Rightarrow> int \<Rightarrow> int" where
  "indexOf s c from =
     (let k = nat (max 0 from); t = drop k s
      in if c \<in> set t then int k + int (length (takeWhile (\<lambda>x. x \<noteq> c) t)) else - 1)"

definition lastIndexOf :: "string \<Rightarrow> char \<Rightarrow> int" where
  "lastIndexOf s c =
     (if c \<in> set s
      then int (length s) - 1 - int (length (takeWhile (\<lambda>x. x \<noteq> c) (rev s)))
      else - 1)"

text \<open>\<^verbatim>\<open>s.substring(a)\<close> and \<^verbatim>\<open>s.substring(0, b)\<close>; negative arguments count as 0.\<close>

definition substring_from :: "string \<Rightarrow> int \<Rightarrow> string" where
  "substring_from s a = drop (nat (max 0 a)) s"

definition substring_to :: "string \<Rightarrow> int \<Rightarrow> string" where
  "substring_to s b = take (nat (max 0 b)) s"

text \<open>\<^verbatim>\<open>s.padEnd(n, '0')\<close>.\<close>

definition padEnd0 :: "string \<Rightarrow> nat \<Rightarrow> string" where
  "padEnd0 s n = s @ replicate (n - length s) (CHR ''0'')"

text \<open>\<^verbatim>\<open>s.replace(/ab/g, r)\<close> for a literal two-character pattern \<open>a b\<close>.\<close>

fun replace2 :: "char \<Rightarrow> char \<Rightarrow> string \<Rightarrow> string \<Rightarrow> string" where
  "replace2 a b r (x # y # zs) =
     (if x = a \<and> y = b then r @ replace2 a b r zs else x # replace2 a b r (y # zs))"
| "replace2 a b r zs = zs"

text \<open>\<^verbatim>\<open>s.replace(/a/g, r)\<close> for a literal one-character pattern.\<close>

definition replace1 :: "char \<Rightarrow> string \<Rightarrow> string \<Rightarrow> string" where
  "replace1 a r s = concat (map (\<lambda>x. if x = a then r else [x]) s)"

definition isDigit :: "char \<Rightarrow> bool" where
  "isDigit c = (let n = (of_char c :: nat) in 48 \<le> n \<and> n \<le> 57)"

section \<open>Subtitle transcoders (\<^verbatim>\<open>services/fileUtils\<close>)\<close>

definition WEBVTT_header :: string where
  "WEBVTT_header = ''WEBVTT'' @ [LF, LF]"

subsection \<open>\<^verbatim>\<open>srtToVtt\<close>\<close>

text \<open>
  \<^verbatim>\<open>/(\d{2}:\d{2}:\d{2}),(\d{3})/\<close> matched at the head of a string: twelve characters,
  digits and separators at fixed places.
\<close>

fun matchTimestamp :: "string \<Rightarrow> bool" where
  "matchTimestamp (h1 # h2 # c1 # m1 # m2 # c2 # s1 # s2 # k # f1 # f2 # f3 # rest) =
     (isDigit h1 \<and> isDigit h2 \<and> c1 = CHR '':'' \<and> isDigit m1 \<and> isDigit m2 \<and> c2 = CHR '':''
      \<and> isDigit s1 \<and> isDigit s2 \<and> k = CHR '','' \<and> isDigit f1 \<and> isDigit f2 \<and> isDigit f3)"
| "matchTimestamp s = False"

text \<open>
  The global replace with \<^verbatim>\<open>'$1.$2'\<close>: scan from the left; at a match emit the eight
  characters of group 1, a period and the three of group 2, and go on after the match;
  otherwise copy one character.
\<close>

function replaceTimestamps :: "string \<Rightarrow> string" where
  "replaceTimestamps [] = []"
| "replaceTimestamps (x # xs) =
     (if matchTimestamp (x # xs)
      then take 8 (x # xs) @ [CHR ''.''] @ take 3 (drop 9 (x # xs))
           @ replaceTimestamps (drop 12 (x # xs))
      else x # replaceTimestamps xs)"
  by pat_completeness auto
termination
  by (relation "measure length") auto

definition normalizeLineEndings :: "string \<Rightarrow> string" where
  "normalizeLineEndings s = replace1 CR [LF] (replace2 CR LF [LF] s)"

definition srtToVtt :: "string \<Rightarrow> string" where
  "srtToVtt srtContent = WEBVTT_header @ replaceTimestamps (normalizeLineEndings srtContent)"

subsection \<open>\<^verbatim>\<open>assToVtt\<close>\<close>

text \<open>\<^verbatim>\<open>assContent.split(/\r?\n/)\<close>.\<close>

fun splitLines :: "string \<Rightarrow> string list" where
  "splitLines [] = [[]]"
| "splitLines (x # xs) =
     (if x = LF then [] # splitLines xs
      else if x = CR \<and> xs \<noteq> [] \<and> hd xs = LF then [] # splitLines (tl xs)
      else (case splitLines xs of [] \<Rightarrow> [[x]] | y # ys \<Rightarrow> (x # y) # ys))"

text \<open>The loop of \<^verbatim>\<open>findNthOccurrence\<close>: \<open>n\<close> rounds left, \<open>index\<close> the last hit.\<close>

fun findNth_loop :: "string \<Rightarrow> char \<Rightarrow> nat \<Rightarrow> int \<Rightarrow> int" where
  "findNth_loop str c 0 index = index"
| "findNth_loop str c (Suc n) index =
     (let index' = indexOf str c (index + 1)
      in if index' = - 1 then index' else findNth_loop str c n index')"

definition findNthOccurrence :: "string \<Rightarrow> char \<Rightarrow> nat \<Rightarrow> int" where
  "findNthOccurrence str c n = findNth_loop str c n (- 1)"

text \<open>
  \<^verbatim>\<open>text.replace(/{[^}]+}/g, '')\<close>: a match starts at an opening brace that is followed
  by at least one character other than a closing brace and then a closing brace.
\<close>

function removeTags :: "string \<Rightarrow> string" where
  "removeTags [] = []"
| "removeTags (x # xs) =
     (let body = takeWhile (\<lambda>y. y \<noteq> CHR ''}'') xs;
          after = dropWhile (\<lambda>y. y \<noteq> CHR ''}'') xs
      in if x = CHR ''{'' \<and> body \<noteq> [] \<and> after \<noteq> []
         then removeTags (tl after)
         else x # removeTags xs)"
  by pat_completeness auto
termination
proof (relation "measure length")
  fix x :: char and xs body after :: string
  assume "after = dropWhile (\<lambda>y. y \<noteq> CHR ''}'') xs"
  then have "length after \<le> length xs"
    by (simp add: length_dropWhile_le)
  then have "length (tl after) \<le> length xs"
    by simp
  then show "(tl after, x # xs) \<in> measure length" by simp
qed auto

definition formatTime :: "string \<Rightarrow> string" where
  "formatTime t =
     (let parts = split_chr (CHR ''.'') t;
          hms = hd parts;
          cs = (if length parts > 1 \<and> parts ! 1 \<noteq> [] then parts ! 1 else ''00'')
      in hms @ ''.'' @ padEnd0 cs 3)"

text \<open>
  One round of the loop over the lines: \<open>None\<close> is \<^verbatim>\<open>continue\<close> or a skipped line,
  \<open>Some cue\<close> the text appended to the output.
\<close>

definition assLine :: "string \<Rightarrow> string option" where
  "assLine line =
     (if startsWith line ''Dialogue:'' then
        (let firstComma = indexOf line (CHR '','') 0 in
         if firstComma = - 1 then None
         else
           (let rest = substring_from line (firstComma + 1);
                parts = split_chr (CHR '','') rest
            in if length parts \<ge> 9 then
                 (let start = parts ! 1;
                      end = parts ! 2;
                      textStartIdx = findNthOccurrence rest (CHR '','') 9;
                      text0 = (if textStartIdx \<noteq> - 1 then substring_from rest (textStartIdx + 1)
                               else join_str '','' (drop 9 parts));
                      text1 = removeTags text0;
                      text2 = replace2 BSL (CHR ''N'') [LF] text1;
                      text3 = replace2 BSL (CHR ''n'') [LF] text2
                  in Some (formatTime start @ '' --> '' @ formatTime end @ [LF] @ text3 @ [LF, LF]))
               else None))
      else None)"

definition assToVtt :: "string \<Rightarrow> string" where
  "assToVtt assContent =
     foldl (\<lambda>vtt line. case assLine line of None \<Rightarrow> vtt | Some cue \<Rightarrow> vtt @ cue)
       WEBVTT_header (splitLines assContent)"

text \<open>
  Line-ending normalisation in one pass, as the specification words it: every CR LF pair
  and every other CR becomes a single LF.
\<close>

fun lineEndings_spec :: "string \<Rightarrow> string" where
  "lineEndings_spec [] = []"
| "lineEndings_spec [x] = [if x = CR then LF else x]"
| "lineEndings_spec (x # y # zs) =
     (if x = CR \<and> y = LF then LF # lineEndings_spec zs
      else (if x = CR then LF else x) # lineEndings_spec (y # zs))"

section \<open>Data model (\<^verbatim>\<open>types.ts\<close>)\<close>

text \<open>
  A \<^verbatim>\<open>File\<close> of the browser, by the properties the engine reads. Record fields carry a
  prefix, since \<open>id\<close>, \<open>name\<close> and \<open>size\<close> occur in several interfaces.
\<close>

record js_file =
  file_name :: string
  file_webkitRelativePath :: string
  file_type :: string
  file_size :: nat

text \<open>
  \<^verbatim>\<open>VideoMetadata\<close>. The optional fields \<^verbatim>\<open>duration\<close>, \<^verbatim>\<open>width\<close> and \<^verbatim>\<open>height\<close> are
  declared and assigned nowhere: every metadata object holds these three fields.
\<close>

record video_metadata =
  title :: string
  plot :: string
  tags :: "string list"

text \<open>\<^verbatim>\<open>Partial<VideoMetadata>\<close>: a field is present or not.\<close>

record partial_metadata =
  p_title :: "string option"
  p_plot :: "string option"
  p_tags :: "string list option"

text \<open>
  The value of a track's \<^verbatim>\<open>fileHandle\<close>: a \<^verbatim>\<open>File\<close>, or the empty object that a
  serialised \<^verbatim>\<open>File\<close> is read back as.
\<close>

datatype file_ref = FileObj js_file | EmptyObj

record subtitle_track =
  label :: string
  language :: string
  st_fileHandle :: file_ref

record video_asset =
  v_id :: string
  v_collectionId :: string
  v_fileName :: string
  v_relativePath :: string
  v_fileHandle :: "file_ref option"
  v_thumbnailUrl :: "string option"
  v_metadata :: video_metadata
  v_size :: nat
  v_subtitles :: "subtitle_track list"

record collection =
  c_id :: string
  c_name :: string
  c_thumbnailUrl :: "string option"

record app_state =
  collections :: "collection list"
  videos :: "video_asset list"

definition SUPPORTED_EXTENSIONS :: "string list" where
  "SUPPORTED_EXTENSIONS = [''.mp4'', ''.mkv'', ''.ts'', ''.rmvb'', ''.avi'', ''.flv'', ''.webm'']"

definition SUBTITLE_EXTENSIONS :: "string list" where
  "SUBTITLE_EXTENSIONS = [''.srt'', ''.vtt'', ''.ass'', ''.ssa'']"

text \<open>JavaScript truthiness of a \<^verbatim>\<open>string | null | undefined\<close>.\<close>

definition truthy :: "string option \<Rightarrow> bool" where
  "truthy t = (case t of None \<Rightarrow> False | Some u \<Rightarrow> u \<noteq> [])"

section \<open>Platform services\<close>

text \<open>
  What \<^verbatim>\<open>parseNFO\<close> reads from the parsed XML document: the text of the first
  \<^verbatim>\<open>title\<close>, \<^verbatim>\<open>plot\<close> and \<^verbatim>\<open>outline\<close> elements (\<open>None\<close> when there is no such
  element) and the texts of all \<^verbatim>\<open>genre\<close> and \<^verbatim>\<open>tag\<close> elements, in document order.
\<close>

record nfo_document =
  q_title :: "string option"
  q_plot :: "string option"
  q_outline :: "string option"
  q_genre :: "string list"
  q_tag :: "string list"

text \<open>
  The platform services the engine calls: \<^verbatim>\<open>String.prototype.toLowerCase\<close>, blob URLs,
  the thumbnail generator, the XML parser applied to a file's text, and the UUID source
  (by the number of ids drawn so far). Nothing is assumed of them but what a theorem
  states as a hypothesis.
\<close>

record platform =
  toLowerCase :: "string \<Rightarrow> string"
  createObjectURL :: "js_file \<Rightarrow> string"
  generateVideoThumbnail :: "js_file \<Rightarrow> string"
  parseXml :: "js_file \<Rightarrow> nfo_document"
  generateUUID :: "nat \<Rightarrow> string"

text \<open>The one fact about \<^verbatim>\<open>toLowerCase\<close> that the examples of the claims need.\<close>

definition lowersAscii :: "platform \<Rightarrow> bool" where
  "lowersAscii env = (\<forall>s. isAscii s \<longrightarrow> toLowerCase env s = asciiLowerCase s)"

section \<open>File utilities (\<^verbatim>\<open>services/fileUtils\<close>)\<close>

definition isVideoFile :: "platform \<Rightarrow> js_file \<Rightarrow> bool" where
  "isVideoFile env f =
     list_ex (\<lambda>ext. endsWith (toLowerCase env (file_name f)) ext) SUPPORTED_EXTENSIONS"

definition isSubtitleFile :: "platform \<Rightarrow> js_file \<Rightarrow> bool" where
  "isSubtitleFile env f =
     list_ex (\<lambda>ext. endsWith (toLowerCase env (file_name f)) ext) SUBTITLE_EXTENSIONS"

definition parseNFO :: "nfo_document \<Rightarrow> partial_metadata" where
  "parseNFO xmlDoc =
     (let title = (if truthy (q_title xmlDoc) then the (q_title xmlDoc) else []);
          plot = (if truthy (q_plot xmlDoc) then the (q_plot xmlDoc)
                  else if truthy (q_outline xmlDoc) then the (q_outline xmlDoc) else []);
          tags = filter (\<lambda>t. t \<noteq> []) (q_genre xmlDoc) @ filter (\<lambda>t. t \<noteq> []) (q_tag xmlDoc)
      in \<lparr>p_title = Some title, p_plot = Some plot, p_tags = Some tags\<rparr>)"

section \<open>Ingestion (\<^verbatim>\<open>handleImportFiles\<close> in \<^verbatim>\<open>App.tsx\<close>)\<close>

record image_asset =
  a_name :: string
  a_url :: string

text \<open>\<^verbatim>\<open>file.webkitRelativePath.split('/').slice(0, -1).join('/')\<close>.\<close>

definition dirOf :: "js_file \<Rightarrow> string" where
  "dirOf f = join_str ''/'' (butlast (split_chr (CHR ''/'') (file_webkitRelativePath f)))"

text \<open>\<^verbatim>\<open>name.substring(0, name.lastIndexOf('.'))\<close>.\<close>

definition stripExtension :: "string \<Rightarrow> string" where
  "stripExtension nm = substring_to nm (lastIndexOf nm (CHR ''.''))"

definition isImage :: "js_file \<Rightarrow> bool" where
  "isImage f = startsWith (file_type f) ''image/''"

text \<open>\<^verbatim>\<open>map.get(dir) || []\<close>.\<close>

definition getOrEmpty :: "(string \<rightharpoonup> 'a list) \<Rightarrow> string \<Rightarrow> 'a list" where
  "getOrEmpty m dir = (case m dir of None \<Rightarrow> [] | Some l \<Rightarrow> l)"

text \<open>Step 1, one round: index an image or a subtitle under its directory.\<close>

definition indexFile ::
  "platform \<Rightarrow> (string \<rightharpoonup> image_asset list) \<times> (string \<rightharpoonup> js_file list) \<Rightarrow> js_file
   \<Rightarrow> (string \<rightharpoonup> image_asset list) \<times> (string \<rightharpoonup> js_file list)" where
  "indexFile env maps f =
     (let folderImages = fst maps; folderSubtitles = snd maps;
          dir = dirOf f;
          nameWithoutExt = toLowerCase env (stripExtension (file_name f))
      in if isImage f then
           (folderImages(dir \<mapsto> getOrEmpty folderImages dir
                                  @ [\<lparr>a_name = nameWithoutExt, a_url = createObjectURL env f\<rparr>]),
            folderSubtitles)
         else if isSubtitleFile env f then
           (folderImages, folderSubtitles(dir \<mapsto> getOrEmpty folderSubtitles dir @ [f]))
         else (folderImages, folderSubtitles))"

definition indexFiles ::
  "platform \<Rightarrow> js_file list \<Rightarrow> (string \<rightharpoonup> image_asset list) \<times> (string \<rightharpoonup> js_file list)" where
  "indexFiles env files = foldl (indexFile env) (Map.empty, Map.empty) files"

definition priorityNames :: "string list" where
  "priorityNames = [''poster'', ''cover'', ''folder'', ''default'']"

text \<open>
  Thumbnail choice. \<open>thumbUrl\<close> starts undefined; each later stage runs only while it is
  falsy; \<open>generated\<close> is what the thumbnail generator returns for the video.
\<close>

definition selectThumbnail :: "image_asset list \<Rightarrow> string \<Rightarrow> string \<Rightarrow> string option" where
  "selectThumbnail assetsInFolder videoNameWithoutExt generated =
     (let t1 = (case find (\<lambda>asset. a_name asset \<in> set priorityNames) assetsInFolder of
                  Some priorityMatch \<Rightarrow> Some (a_url priorityMatch) | None \<Rightarrow> None);
          t2 = (if \<not> truthy t1 then
                  (case find (\<lambda>asset. includes_str (a_name asset) ''poster'') assetsInFolder of
                     Some posterMatch \<Rightarrow> Some (a_url posterMatch) | None \<Rightarrow> t1)
                else t1);
          t3 = (if \<not> truthy t2 then
                  (case find (\<lambda>asset. a_name asset = videoNameWithoutExt) assetsInFolder of
                     Some exactMatch \<Rightarrow> Some (a_url exactMatch) | None \<Rightarrow> t2)
                else t2);
          t4 = (if \<not> truthy t3 then Some generated else t3)
      in if truthy t4 then t4 else None)"

text \<open>Subtitle choice and the language guess for one matched subtitle file.\<close>

definition matchedSubs :: "platform \<Rightarrow> string \<Rightarrow> js_file list \<Rightarrow> js_file list" where
  "matchedSubs env videoNameWithoutExt subsInFolder =
     filter (\<lambda>sub. let subName = toLowerCase env (file_name sub)
                   in startsWith subName videoNameWithoutExt) subsInFolder"

definition guessLanguage :: "platform \<Rightarrow> string \<Rightarrow> string" where
  "guessLanguage env subName =
     (let parts = split_chr (CHR ''.'') (toLowerCase env subName);
          lang = ''en''
      in if length parts > 2 then
           (let possibleLang = parts ! (length parts - 2)
            in if length possibleLang = 2 then possibleLang else lang)
         else lang)"

definition subtitleTrack :: "platform \<Rightarrow> js_file \<Rightarrow> subtitle_track" where
  "subtitleTrack env sub =
     \<lparr>label = file_name sub, language = guessLanguage env (file_name sub),
      st_fileHandle = FileObj sub\<rparr>"

text \<open>The metadata sidecar of a video, and \<^verbatim>\<open>{ ...metadata, ...nfoData }\<close>.\<close>

definition findNfo :: "platform \<Rightarrow> js_file list \<Rightarrow> string \<Rightarrow> string \<Rightarrow> js_file option" where
  "findNfo env files dir videoNameWithoutExt =
     find (\<lambda>f. let fName = toLowerCase env (file_name f)
               in startsWith (toLowerCase env (file_webkitRelativePath f))
                    (toLowerCase env dir @ ''/'' @ videoNameWithoutExt)
                  \<and> endsWith fName ''.nfo'') files"

definition mergeMetadata :: "video_metadata \<Rightarrow> partial_metadata \<Rightarrow> video_metadata" where
  "mergeMetadata m p =
     \<lparr>title = (case p_title p of None \<Rightarrow> title m | Some t \<Rightarrow> t),
      plot = (case p_plot p of None \<Rightarrow> plot m | Some t \<Rightarrow> t),
      tags = (case p_tags p of None \<Rightarrow> tags m | Some t \<Rightarrow> t)\<rparr>"

text \<open>
  Step 2, the body of the loop for one video file; \<open>k\<close> is the number of videos pushed
  before it.
\<close>

definition importVideo ::
  "platform \<Rightarrow> string \<Rightarrow> js_file list
   \<Rightarrow> (string \<rightharpoonup> image_asset list) \<times> (string \<rightharpoonup> js_file list) \<Rightarrow> nat \<Rightarrow> js_file \<Rightarrow> video_asset" where
  "importVideo env selectedCollectionId files maps k f =
     (let folderImages = fst maps; folderSubtitles = snd maps;
          dir = dirOf f;
          videoNameWithoutExt = toLowerCase env (stripExtension (file_name f));
          assetsInFolder = getOrEmpty folderImages dir;
          thumbUrl = selectThumbnail assetsInFolder videoNameWithoutExt
                       (generateVideoThumbnail env f);
          subsInFolder = getOrEmpty folderSubtitles dir;
          subtitleTracks = map (subtitleTrack env) (matchedSubs env videoNameWithoutExt subsInFolder);
          metadata0 = \<lparr>title = stripExtension (file_name f), plot = [], tags = []\<rparr>;
          metadata = (case findNfo env files dir videoNameWithoutExt of
                        None \<Rightarrow> metadata0
                      | Some nfoFile \<Rightarrow> mergeMetadata metadata0 (parseNFO (parseXml env nfoFile)))
      in \<lparr>v_id = generateUUID env k,
          v_collectionId = selectedCollectionId,
          v_fileName = file_name f,
          v_relativePath = file_webkitRelativePath f,
          v_fileHandle = Some (FileObj f),
          v_thumbnailUrl = thumbUrl,
          v_metadata = metadata,
          v_size = file_size f,
          v_subtitles = subtitleTracks\<rparr>)"

text \<open>
  The handler: \<open>None\<close> when no collection is selected (it returns at once), else the
  payload of the \<^verbatim>\<open>ADD_VIDEOS\<close> action it dispatches.
\<close>

definition handleImportFiles ::
  "platform \<Rightarrow> string option \<Rightarrow> js_file list \<Rightarrow> video_asset list option" where
  "handleImportFiles env selectedCollectionId fileList =
     (if \<not> truthy selectedCollectionId then None
      else
        (let files = fileList;
             maps = indexFiles env files;
             newVideos =
               foldl (\<lambda>acc f. if isVideoFile env f
                               then acc @ [importVideo env (the selectedCollectionId) files maps
                                             (length acc) f]
                               else acc) [] files
         in Some newVideos))"

section \<open>The reducer and the relink matcher (\<^verbatim>\<open>App.tsx\<close>)\<close>

datatype action =
    ADD_COLLECTION collection
  | DELETE_COLLECTION string
  | ADD_VIDEOS "video_asset list"
  | UPDATE_VIDEO string partial_metadata
  | LOAD_STATE app_state
  | UPDATE_PATHS "js_file list"

text \<open>
  A \<^verbatim>\<open>Map<string, File>\<close> keeps its keys in the order of their first insertion; setting
  a key that is present replaces the value in place.
\<close>

fun map_set :: "(string \<times> js_file) list \<Rightarrow> string \<Rightarrow> js_file \<Rightarrow> (string \<times> js_file) list" where
  "map_set [] k v = [(k, v)]"
| "map_set ((k', v') # m) k v = (if k' = k then (k, v) # m else (k', v') # map_set m k v)"

text \<open>\<^verbatim>\<open>f.webkitRelativePath || f.name\<close>.\<close>

definition fileKey :: "js_file \<Rightarrow> string" where
  "fileKey f = (if file_webkitRelativePath f \<noteq> [] then file_webkitRelativePath f else file_name f)"

definition buildFileMap :: "js_file list \<Rightarrow> (string \<times> js_file) list" where
  "buildFileMap files = foldl (\<lambda>fileMap f. map_set fileMap (fileKey f) f) [] files"

text \<open>
  One asset: the exact lookup, then the scan of the entries for a path that ends with
  the last segment of the stored path, stopping at the first hit.
\<close>

definition relinkVideo :: "(string \<times> js_file) list \<Rightarrow> video_asset \<Rightarrow> video_asset" where
  "relinkVideo fileMap v =
     (let handle0 = map_of fileMap (v_relativePath v);
          handle =
            (case handle0 of
               Some h \<Rightarrow> Some h
             | None \<Rightarrow>
                 (let fileName = last (split_chr (CHR ''/'') (v_relativePath v))
                  in map_option snd
                       (find (\<lambda>entry. endsWith (fst entry) (if fileName \<noteq> [] then fileName else []))
                          fileMap)))
      in case handle of Some h \<Rightarrow> v\<lparr>v_fileHandle := Some (FileObj h)\<rparr> | None \<Rightarrow> v)"

fun reducer :: "app_state \<Rightarrow> action \<Rightarrow> app_state" where
  "reducer state (ADD_COLLECTION payload) =
     state\<lparr>collections := collections state @ [payload]\<rparr>"
| "reducer state (DELETE_COLLECTION payload) =
     state\<lparr>collections := filter (\<lambda>c. c_id c \<noteq> payload) (collections state),
           videos := filter (\<lambda>v. v_collectionId v \<noteq> payload) (videos state)\<rparr>"
| "reducer state (ADD_VIDEOS payload) =
     (let newState = state\<lparr>videos := videos state @ payload\<rparr>;
          collectionIds = remdups (map v_collectionId payload);
          updatedCollections =
            map (\<lambda>c. if c_id c \<in> set collectionIds \<and> \<not> truthy (c_thumbnailUrl c) then
                        (case find (\<lambda>v. v_collectionId v = c_id c \<and> truthy (v_thumbnailUrl v))
                                payload of
                           Some video \<Rightarrow> c\<lparr>c_thumbnailUrl := v_thumbnailUrl video\<rparr>
                         | None \<Rightarrow> c)
                      else c) (collections state)
      in newState\<lparr>collections := updatedCollections\<rparr>)"
| "reducer state (UPDATE_VIDEO vid metadata) =
     state\<lparr>videos := map (\<lambda>v. if v_id v = vid
                               then v\<lparr>v_metadata := mergeMetadata (v_metadata v) metadata\<rparr>
                               else v) (videos state)\<rparr>"
| "reducer state (LOAD_STATE payload) = payload"
| "reducer state (UPDATE_PATHS files) =
     state\<lparr>videos := map (relinkVideo (buildFileMap files)) (videos state)\<rparr>"

text \<open>
  \<^verbatim>\<open>handleUpdatePaths\<close> dispatches the action and raises an alert; it returns nothing.
  The model gives the state after the dispatch and the text of the alert.
\<close>

definition handleUpdatePaths :: "app_state \<Rightarrow> js_file list \<Rightarrow> app_state \<times> string" where
  "handleUpdatePaths state files =
     (reducer state (UPDATE_PATHS files), ''Paths updated. Please verify playback.'')"

section \<open>Export and import of the index (\<^verbatim>\<open>App.tsx\<close>)\<close>

text \<open>
  The text of an index file, by what \<^verbatim>\<open>JSON.parse\<close> and the tests of the import handler
  make of it: a text that does not parse, or parses to \<^verbatim>\<open>null\<close>; an object with both
  \<^verbatim>\<open>collections\<close> and \<^verbatim>\<open>videos\<close>; an object without that pair and with
  \<^verbatim>\<open>containers\<close> (its videos, when it has any, each with the \<^verbatim>\<open>containerId\<close> it
  carries); any other value.
\<close>

datatype index_text =
    NotJson
  | CurrentIndex app_state
  | LegacyIndex "collection list" "(video_asset \<times> string) list option"
  | OtherJson

text \<open>
  \<^verbatim>\<open>JSON.stringify\<close> of a state, as \<^verbatim>\<open>JSON.parse\<close> reads it back: strings, numbers,
  \<^verbatim>\<open>null\<close> and arrays come back as they were, and a \<^verbatim>\<open>File\<close> comes back as an empty
  object.
\<close>

definition json_ref :: "file_ref \<Rightarrow> file_ref" where
  "json_ref r = EmptyObj"

definition json_track :: "subtitle_track \<Rightarrow> subtitle_track" where
  "json_track t = t\<lparr>st_fileHandle := json_ref (st_fileHandle t)\<rparr>"

definition json_video :: "video_asset \<Rightarrow> video_asset" where
  "json_video v =
     v\<lparr>v_fileHandle := map_option json_ref (v_fileHandle v),
       v_subtitles := map json_track (v_subtitles v)\<rparr>"

definition JSON_stringify :: "app_state \<Rightarrow> index_text" where
  "JSON_stringify data = CurrentIndex (data\<lparr>videos := map json_video (videos data)\<rparr>)"

definition handleExportData :: "app_state \<Rightarrow> index_text" where
  "handleExportData state =
     (let dataToSave = \<lparr>collections = collections state,
                         videos = map (\<lambda>v. v\<lparr>v_fileHandle := None\<rparr>) (videos state)\<rparr>
      in JSON_stringify dataToSave)"

text \<open>
  The import handler: the payload of the \<^verbatim>\<open>LOAD_STATE\<close> action it dispatches, if any,
  and the text of its alert. A legacy index without \<^verbatim>\<open>videos\<close> makes \<^verbatim>\<open>data.videos.map\<close>
  throw, which the handler catches like a parse error.
\<close>

definition handleImportData :: "index_text \<Rightarrow> app_state option \<times> string" where
  "handleImportData text =
     (case text of
        NotJson \<Rightarrow> (None, ''Error parsing file.'')
      | CurrentIndex data \<Rightarrow>
          (Some data, ''Index loaded. Please use 'Update Paths' to re-link video files.'')
      | LegacyIndex containers None \<Rightarrow> (None, ''Error parsing file.'')
      | LegacyIndex containers (Some vs) \<Rightarrow>
          (Some \<lparr>collections = containers,
                 videos = map (\<lambda>(v, containerId). v\<lparr>v_collectionId := containerId,
                                                    v_subtitles := []\<rparr>) vs\<rparr>,
           ''Legacy Index loaded & migrated. Please use 'Update Paths' to re-link video files.'')
      | OtherJson \<Rightarrow> (None, ''Invalid file format.''))"

section \<open>The specification's reading of the engine, and sample data\<close>

text \<open>
  The relink matcher read over the batch itself, by lookup key. The entry for a key is
  the batch entry with that key; when several entries share a key it is the last of
  them, whose handle the lookup keeps.
\<close>

definition entryFor :: "js_file list \<Rightarrow> string \<Rightarrow> js_file" where
  "entryFor batch path = last (filter (\<lambda>f. fileKey f = path) batch)"

definition lastSegment :: "string \<Rightarrow> string" where
  "lastSegment path = last (split_chr (CHR ''/'') path)"

definition relink_by_key :: "js_file list \<Rightarrow> video_asset \<Rightarrow> video_asset" where
  "relink_by_key batch v =
     (case find (\<lambda>f. fileKey f = v_relativePath v) batch of
        Some f \<Rightarrow> v\<lparr>v_fileHandle := Some (FileObj (entryFor batch (fileKey f)))\<rparr>
      | None \<Rightarrow>
          (case find (\<lambda>f. endsWith (fileKey f) (lastSegment (v_relativePath v))) batch of
             Some f \<Rightarrow> v\<lparr>v_fileHandle := Some (FileObj (entryFor batch (fileKey f)))\<rparr>
           | None \<Rightarrow> v))"

text \<open>The first key of a lookup that satisfies a test, in the order of the lookup.\<close>

definition firstKey :: "(string \<Rightarrow> bool) \<Rightarrow> (string \<times> js_file) list \<Rightarrow> string option" where
  "firstKey P m = map_option fst (find (\<lambda>e. P (fst e)) m)"

text \<open>The number of assets of a state without a handle.\<close>

definition unresolvedCount :: "app_state \<Rightarrow> nat" where
  "unresolvedCount st = length (filter (\<lambda>v. v_fileHandle v = None) (videos st))"

text \<open>A file and a persisted asset (handle absent) at a given path, for concrete runs.\<close>

definition example_file :: "string \<Rightarrow> js_file" where
  "example_file path =
     \<lparr>file_name = last (split_chr (CHR ''/'') path), file_webkitRelativePath = path,
      file_type = [], file_size = 0\<rparr>"

definition example_asset :: "string \<Rightarrow> video_asset" where
  "example_asset path =
     \<lparr>v_id = path, v_collectionId = ''c1'', v_fileName = last (split_chr (CHR ''/'') path),
      v_relativePath = path, v_fileHandle = None, v_thumbnailUrl = None,
      v_metadata = \<lparr>title = [], plot = [], tags = []\<rparr>, v_size = 0, v_subtitles = []\<rparr>"

text \<open>
  The directory groups in the words of the specification: the images of a directory, each
  with its stripped lower-cased name and its URL, and the subtitle files of a directory,
  both in batch order.
\<close>

definition directoryImages :: "platform \<Rightarrow> js_file list \<Rightarrow> string \<Rightarrow> image_asset list" where
  "directoryImages env files dir =
     map (\<lambda>f. \<lparr>a_name = toLowerCase env (stripExtension (file_name f)), a_url = createObjectURL env f\<rparr>)
       (filter (\<lambda>f. isImage f \<and> dirOf f = dir) files)"

definition directorySubtitles :: "platform \<Rightarrow> js_file list \<Rightarrow> string \<Rightarrow> js_file list" where
  "directorySubtitles env files dir =
     filter (\<lambda>f. \<not> isImage f \<and> isSubtitleFile env f \<and> dirOf f = dir) files"

text \<open>
  Thumbnail selection in the words of the specification: the first image with a priority
  name, else the first image whose name contains \<^verbatim>\<open>poster\<close>, else the first image named
  as the video, else the generated thumbnail (none when generation gave nothing).
\<close>

definition thumbnail_spec :: "image_asset list \<Rightarrow> string \<Rightarrow> string \<Rightarrow> string option" where
  "thumbnail_spec images baseName generated =
     (case find (\<lambda>a. a_name a \<in> set priorityNames) images of
        Some a \<Rightarrow> Some (a_url a)
      | None \<Rightarrow>
          (case find (\<lambda>a. includes_str (a_name a) ''poster'') images of
             Some a \<Rightarrow> Some (a_url a)
           | None \<Rightarrow>
               (case find (\<lambda>a. a_name a = baseName) images of
                  Some a \<Rightarrow> Some (a_url a)
                | None \<Rightarrow> if generated = [] then None else Some generated)))"

definition example_image :: "string \<Rightarrow> js_file" where
  "example_image path =
     \<lparr>file_name = last (split_chr (CHR ''/'') path), file_webkitRelativePath = path,
      file_type = ''image/jpeg'', file_size = 0\<rparr>"

text \<open>
  A platform for concrete runs. Its \<^verbatim>\<open>toLowerCase\<close> folds the ASCII letters, which is
  what the method does on the ASCII names of those runs.
\<close>

definition example_platform :: platform where
  "example_platform =
     \<lparr>toLowerCase = asciiLowerCase,
      createObjectURL = (\<lambda>f. ''blob:'' @ file_webkitRelativePath f),
      generateVideoThumbnail = (\<lambda>f. ''data:image/jpeg''),
      parseXml = (\<lambda>f. \<lparr>q_title = Some ''Title'', q_plot = None, q_outline = Some ''Outline'',
                          q_genre = [''Drama'', []], q_tag = [''4k'']\<rparr>),
      generateUUID = (\<lambda>k. replicate (Suc k) (CHR ''u''))\<rparr>"

text \<open>
  Language inference read on the stripped name, as the specification words it: split the
  stripped lower-cased name on the period and take the second-to-last segment when it is
  two characters long.
\<close>

definition language_of_stripped_name :: "platform \<Rightarrow> string \<Rightarrow> string" where
  "language_of_stripped_name env nm =
     (let parts = split_chr (CHR ''.'') (toLowerCase env (stripExtension nm))
      in if length parts \<ge> 2 \<and> length (parts ! (length parts - 2)) = 2
         then parts ! (length parts - 2) else ''en'')"

text \<open>
  The relink matcher in the words of the specification, over the relative paths of the
  batch. The entry at a path is the batch entry with that relative path; when several
  entries share a relative path it is the last of them.
\<close>

definition entryAt :: "js_file list \<Rightarrow> string \<Rightarrow> js_file" where
  "entryAt batch path = last (filter (\<lambda>f. file_webkitRelativePath f = path) batch)"

definition relink_spec :: "js_file list \<Rightarrow> video_asset \<Rightarrow> video_asset" where
  "relink_spec batch v =
     (case find (\<lambda>f. file_webkitRelativePath f = v_relativePath v) batch of
        Some f \<Rightarrow> v\<lparr>v_fileHandle := Some (FileObj (entryAt batch (file_webkitRelativePath f)))\<rparr>
      | None \<Rightarrow>
          (case find (\<lambda>f. endsWith (file_webkitRelativePath f) (lastSegment (v_relativePath v)))
                  batch of
             Some f \<Rightarrow>
               v\<lparr>v_fileHandle := Some (FileObj (entryAt batch (file_webkitRelativePath f)))\<rparr>
           | None \<Rightarrow> v))"

text \<open>
  The timestamps that the left-to-right scan rewrites, by their positions in the text: a
  run that has the form of a timestamp is rewritten unless the scan has rewritten a
  timestamp that starts 10 or 11 characters before it; these are the only distances at
  which two runs of that form overlap.
\<close>

function scanMatch :: "string \<Rightarrow> nat \<Rightarrow> bool" where
  "scanMatch s p =
     (matchTimestamp (drop p s)
      \<and> (if 10 \<le> p then \<not> scanMatch s (p - 10) else True)
      \<and> (if 11 \<le> p then \<not> scanMatch s (p - 11) else True))"
  by pat_completeness auto
termination
  by (relation "measure snd") auto

declare scanMatch.simps [simp del]

section \<open>Properties of the subtitle transcoders\<close>

lemma isDigit_colon [simp]: "\<not> isDigit (CHR '':'')"
  by (simp add: isDigit_def)
lemma isDigit_comma [simp]: "\<not> isDigit (CHR '','')"
  by (simp add: isDigit_def)

lemma matchTimestamp_nth:
  "matchTimestamp s =
     (12 \<le> length s \<and> isDigit (s ! 0) \<and> isDigit (s ! 1) \<and> s ! 2 = CHR '':''
      \<and> isDigit (s ! 3) \<and> isDigit (s ! 4) \<and> s ! 5 = CHR '':''
      \<and> isDigit (s ! 6) \<and> isDigit (s ! 7) \<and> s ! 8 = CHR '',''
      \<and> isDigit (s ! 9) \<and> isDigit (s ! 10) \<and> isDigit (s ! 11))"
  by (cases s rule: matchTimestamp.cases) simp_all

lemma replaceTimestamps_match:
  "matchTimestamp s \<Longrightarrow>
   replaceTimestamps s =
     take 8 s @ [CHR ''.''] @ take 3 (drop 9 s) @ replaceTimestamps (drop 12 s)"
  by (cases s) simp_all

lemma replaceTimestamps_nomatch:
  "\<not> matchTimestamp s \<Longrightarrow> s \<noteq> [] \<Longrightarrow>
   replaceTimestamps s = hd s # replaceTimestamps (tl s)"
  by (cases s) simp_all

lemma length_replaceTimestamps: "length (replaceTimestamps s) = length s"
proof (induction s rule: length_induct)
  case (1 s)
  show ?case
  proof (cases "matchTimestamp s")
    case True
    then have len: "12 \<le> length s" by (simp add: matchTimestamp_nth)
    then have "length (replaceTimestamps (drop 12 s)) = length s - 12"
      using 1 by simp
    with True len show ?thesis by (simp add: replaceTimestamps_match)
  next
    case False
    show ?thesis
    proof (cases s)
      case Nil
      then show ?thesis by simp
    next
      case (Cons x xs)
      with False 1 show ?thesis by (simp add: replaceTimestamps_nomatch)
    qed
  qed
qed

lemma timestamps_overlap:
  assumes m0: "matchTimestamp s" and mp: "matchTimestamp (drop p s)"
    and p: "0 < p" "p < 12"
  shows "isDigit (s ! (p - 1))"
proof -
  from mp have len: "p + 12 \<le> length s" by (auto simp add: matchTimestamp_nth)
  then have nd: "\<And>j. j < 12 \<Longrightarrow> drop p s ! j = s ! (p + j)" by simp
  from p have "p = 1 \<or> p = 2 \<or> p = 3 \<or> p = 4 \<or> p = 5 \<or> p = 6 \<or> p = 7 \<or> p = 8
               \<or> p = 9 \<or> p = 10 \<or> p = 11" by arith
  then show ?thesis
    using m0 mp nd by (elim disjE) (simp_all add: matchTimestamp_nth)
qed

lemma replace1_Cons:
  "replace1 a r (x # xs) = (if x = a then r else [x]) @ replace1 a r xs"
  by (simp add: replace1_def)

lemma replace1_Nil: "replace1 a r [] = []"
  by (simp add: replace1_def)

lemma normalizeLineEndings_spec: "normalizeLineEndings s = lineEndings_spec s"
  unfolding normalizeLineEndings_def
  by (induction s rule: lineEndings_spec.induct) (simp_all add: replace1_Cons replace1_Nil)

lemma CR_notin_lineEndings_spec: "CR \<notin> set (lineEndings_spec s)"
  by (induction s rule: lineEndings_spec.induct) simp_all

subsection \<open>The dialogue transcoder on the documented record\<close>

text \<open>
  Claim C1. The record \<^verbatim>\<open>Dialogue: 0,0:00:05.00,0:00:07.00,Default,,0,0,0,,Hello, world\<close>
  should give the cue \<^verbatim>\<open>00:00:05.000 --> 00:00:07.000\<close> with the text
  \<^verbatim>\<open>Hello, world\<close>. The fields are read from the remainder after the first comma,
  where the layer is already gone, so index 1 is the end time and index 2 the style, and
  the ninth comma of the remainder is the one inside the dialogue text: the cue produced
  is \<^verbatim>\<open>0:00:07.000 --> Default.000\<close> with the text \<^verbatim>\<open> world\<close>.
\<close>

theorem assToVtt_dialogue_example:
  "assToVtt ''Dialogue: 0,0:00:05.00,0:00:07.00,Default,,0,0,0,,Hello, world'' =
     WEBVTT_header @ ''0:00:07.000 --> Default.000'' @ [LF] @ '' world'' @ [LF, LF]"
  by code_simp

subsection \<open>The cue-format transcoder\<close>

text \<open>
  Claim C6, as stated, at a concrete input: in \<^verbatim>\<open>12:34:56,7890:12:34,567\<close> the text
  \<^verbatim>\<open>90:12:34,567\<close> at offset 11 has the form of a timestamp, and its comma is kept,
  because the scan has consumed its first character with the match at offset 0.
\<close>

theorem srtToVtt_overlap_counterexample:
  "matchTimestamp (drop 11 (normalizeLineEndings ''12:34:56,7890:12:34,567'')) \<and>
   srtToVtt ''12:34:56,7890:12:34,567'' = WEBVTT_header @ ''12:34:56.7890:12:34,567''"
  by code_simp

lemma timestamps_apart:
  assumes m0: "matchTimestamp s" and mp: "matchTimestamp (drop d s)"
    and d: "0 < d" "d < 12"
  shows "d = 10 \<or> d = 11"
proof -
  from mp have len: "d + 12 \<le> length s" by (auto simp add: matchTimestamp_nth)
  then have nd: "\<And>j. j < 12 \<Longrightarrow> drop d s ! j = s ! (d + j)" by simp
  from d have "d = 1 \<or> d = 2 \<or> d = 3 \<or> d = 4 \<or> d = 5 \<or> d = 6 \<or> d = 7 \<or> d = 8
               \<or> d = 9 \<or> d = 10 \<or> d = 11" by arith
  then show ?thesis
    using m0 mp nd by (elim disjE) (simp_all add: matchTimestamp_nth)
qed

lemma scanMatch_unfold:
  "scanMatch s p =
     (matchTimestamp (drop p s)
      \<and> (10 \<le> p \<longrightarrow> \<not> scanMatch s (p - 10))
      \<and> (11 \<le> p \<longrightarrow> \<not> scanMatch s (p - 11)))"
  by (subst scanMatch.simps) simp

lemma scanMatch_match: "scanMatch s p \<Longrightarrow> matchTimestamp (drop p s)"
  using scanMatch_unfold [of s p] by blast

lemma scanMatch_0: "scanMatch s 0 = matchTimestamp s"
  using scanMatch_unfold [of s 0] by simp

lemma scanMatch_after_head:
  assumes "matchTimestamp s" and "0 < j" and "j < 12"
  shows "\<not> scanMatch s j"
proof
  assume sm: "scanMatch s j"
  then have "matchTimestamp (drop j s)" by (rule scanMatch_match)
  then have "j = 10 \<or> j = 11" using timestamps_apart [of s j] assms by blast
  moreover have "scanMatch s 0" using assms(1) by (simp add: scanMatch_0)
  ultimately show False
    using sm scanMatch_unfold [of s j] by auto
qed

lemma scanMatch_shift12:
  assumes m: "matchTimestamp s"
  shows "scanMatch s (q + 12) = scanMatch (drop 12 s) q"
proof (induction q rule: less_induct)
  case (less q)
  have l: "scanMatch s (q + 12) =
      (matchTimestamp (drop (q + 12) s) \<and> \<not> scanMatch s (q + 2) \<and> \<not> scanMatch s (q + 1))"
    using scanMatch_unfold [of s "q + 12"] by simp
  have r: "scanMatch (drop 12 s) q =
      (matchTimestamp (drop (q + 12) s)
       \<and> (10 \<le> q \<longrightarrow> \<not> scanMatch (drop 12 s) (q - 10))
       \<and> (11 \<le> q \<longrightarrow> \<not> scanMatch (drop 12 s) (q - 11)))"
    using scanMatch_unfold [of "drop 12 s" q] by (simp add: add.commute)
  consider "q < 10" | "q = 10" | "11 \<le> q" by arith
  then show ?case
  proof cases
    case 1
    then have "\<not> scanMatch s (q + 2)" and "\<not> scanMatch s (q + 1)"
      using m by (simp_all add: scanMatch_after_head)
    with 1 show ?thesis unfolding l r by simp
  next
    case 2
    have "\<not> scanMatch s (q + 1)" using m 2 by (simp add: scanMatch_after_head)
    moreover have "scanMatch s (q + 2) = scanMatch (drop 12 s) (q - 10)"
      using less [of 0] 2 by simp
    ultimately show ?thesis unfolding l r using 2 by simp
  next
    case 3
    then have a: "scanMatch s (q - 10 + 12) = scanMatch (drop 12 s) (q - 10)"
      and b: "scanMatch s (q - 11 + 12) = scanMatch (drop 12 s) (q - 11)"
      using less [of "q - 10"] less [of "q - 11"] by simp_all
    from 3 have "q - 10 + 12 = q + 2" and "q - 11 + 12 = q + 1" by arith+
    with a b 3 show ?thesis unfolding l r by simp
  qed
qed

lemma scanMatch_shift1:
  assumes m: "\<not> matchTimestamp s"
  shows "scanMatch s (Suc q) = scanMatch (tl s) q"
proof (induction q rule: less_induct)
  case (less q)
  have z: "\<not> scanMatch s 0" using m by (simp add: scanMatch_0)
  have l: "scanMatch s (Suc q) =
      (matchTimestamp (drop q (tl s))
       \<and> (9 \<le> q \<longrightarrow> \<not> scanMatch s (q - 9))
       \<and> (10 \<le> q \<longrightarrow> \<not> scanMatch s (q - 10)))"
    using scanMatch_unfold [of s "Suc q"] by (simp add: drop_Suc)
  have r: "scanMatch (tl s) q =
      (matchTimestamp (drop q (tl s))
       \<and> (10 \<le> q \<longrightarrow> \<not> scanMatch (tl s) (q - 10))
       \<and> (11 \<le> q \<longrightarrow> \<not> scanMatch (tl s) (q - 11)))"
    using scanMatch_unfold [of "tl s" q] by simp
  consider "q < 9" | "q = 9" | "q = 10" | "11 \<le> q" by arith
  then show ?case
  proof cases
    case 1
    then show ?thesis unfolding l r by simp
  next
    case 2
    then have "\<not> scanMatch s (q - 9)" using z by simp
    with 2 show ?thesis unfolding l r by simp
  next
    case 3
    then have "scanMatch s (q - 9) = scanMatch (tl s) (q - 10)"
      using less [of 0] by simp
    moreover have "\<not> scanMatch s (q - 10)" using 3 z by simp
    ultimately show ?thesis unfolding l r using 3 by simp
  next
    case 4
    then have a: "scanMatch s (Suc (q - 10)) = scanMatch (tl s) (q - 10)"
      and b: "scanMatch s (Suc (q - 11)) = scanMatch (tl s) (q - 11)"
      using less [of "q - 10"] less [of "q - 11"] by simp_all
    from 4 have "Suc (q - 10) = q - 9" and "Suc (q - 11) = q - 10" by arith+
    with a b 4 show ?thesis unfolding l r by simp
  qed
qed

lemma replaceTimestamps_nth:
  "i < length s \<Longrightarrow>
   replaceTimestamps s ! i = (if 8 \<le> i \<and> scanMatch s (i - 8) then CHR ''.'' else s ! i)"
proof (induction s arbitrary: i rule: length_induct)
  case (1 s)
  show ?case
  proof (cases "matchTimestamp s")
    case True
    then have len: "12 \<le> length s" by (simp add: matchTimestamp_nth)
    have eq: "replaceTimestamps s =
        take 8 s @ [CHR ''.''] @ take 3 (drop 9 s) @ replaceTimestamps (drop 12 s)"
      using True by (rule replaceTimestamps_match)
    consider "i < 8" | "i = 8" | "8 < i" "i < 12" | "12 \<le> i" "i < 20" | "20 \<le> i" by arith
    then show ?thesis
    proof cases
      case 1
      with len show ?thesis by (simp add: eq nth_append)
    next
      case 2
      with len True show ?thesis by (simp add: eq nth_append scanMatch_0)
    next
      case 3
      then have "\<not> scanMatch s (i - 8)" using True by (simp add: scanMatch_after_head)
      moreover from 3 have "i = 9 \<or> i = 10 \<or> i = 11" by arith
      ultimately show ?thesis using len by (auto simp add: eq nth_append nth_Cons')
    next
      case 4
      then have no: "\<not> scanMatch s (i - 8)" using True by (simp add: scanMatch_after_head)
      from 4 len have out: "replaceTimestamps s ! i = replaceTimestamps (drop 12 s) ! (i - 12)"
        by (simp add: eq nth_append nth_Cons')
      have "length (drop 12 s) < length s" using len by simp
      moreover have "i - 12 < length (drop 12 s)" using 4 \<open>i < length s\<close> by simp
      ultimately have "replaceTimestamps (drop 12 s) ! (i - 12) =
          (if 8 \<le> i - 12 \<and> scanMatch (drop 12 s) (i - 12 - 8) then CHR ''.''
           else drop 12 s ! (i - 12))"
        using "1.IH" by blast
      moreover have "\<not> 8 \<le> i - 12" using 4 by arith
      moreover have "drop 12 s ! (i - 12) = s ! i" using 4 len by simp
      ultimately show ?thesis using out no by simp
    next
      case 5
      with len have out: "replaceTimestamps s ! i = replaceTimestamps (drop 12 s) ! (i - 12)"
        by (simp add: eq nth_append nth_Cons')
      have "length (drop 12 s) < length s" using len by simp
      moreover have "i - 12 < length (drop 12 s)" using 5 \<open>i < length s\<close> by simp
      ultimately have ih: "replaceTimestamps (drop 12 s) ! (i - 12) =
          (if 8 \<le> i - 12 \<and> scanMatch (drop 12 s) (i - 12 - 8) then CHR ''.''
           else drop 12 s ! (i - 12))"
        using "1.IH" by blast
      have g: "8 \<le> i - 12" and g': "8 \<le> i" using 5 by arith+
      have nth: "drop 12 s ! (i - 12) = s ! i" using 5 len by simp
      from 5 have e1: "i - 8 = (i - 20) + 12" and e2: "i - 12 - 8 = i - 20" by arith+
      have "scanMatch s ((i - 20) + 12) = scanMatch (drop 12 s) (i - 20)"
        by (rule scanMatch_shift12 [OF True])
      then have "scanMatch s (i - 8) = scanMatch (drop 12 s) (i - 12 - 8)"
        by (simp only: e1 e2)
      with ih out nth g g' show ?thesis by simp
    qed
  next
    case False
    from \<open>i < length s\<close> obtain x xs where s: "s = x # xs" by (cases s) auto
    have eq: "replaceTimestamps s = x # replaceTimestamps xs"
      using False s by simp
    have z: "\<not> scanMatch s 0" using False by (simp add: scanMatch_0)
    show ?thesis
    proof (cases i)
      case 0
      then show ?thesis by (simp add: eq s)
    next
      case (Suc j)
      with \<open>i < length s\<close> s have "j < length xs" by simp
      moreover have "length xs < length s" using s by simp
      ultimately have ih: "replaceTimestamps xs ! j =
          (if 8 \<le> j \<and> scanMatch xs (j - 8) then CHR ''.'' else xs ! j)"
        using "1.IH" by blast
      have a: "replaceTimestamps s ! i = replaceTimestamps xs ! j" by (simp add: eq Suc)
      have b: "s ! i = xs ! j" by (simp add: s Suc)
      consider "j < 7" | "j = 7" | "8 \<le> j" by arith
      then show ?thesis
      proof cases
        case 1
        with ih a b Suc show ?thesis by simp
      next
        case 2
        with ih a b Suc z show ?thesis by simp
      next
        case 3
        then have e1: "i - 8 = Suc (j - 8)" using Suc by arith
        have "scanMatch s (Suc (j - 8)) = scanMatch (tl s) (j - 8)"
          by (rule scanMatch_shift1 [OF False])
        then have "scanMatch s (i - 8) = scanMatch xs (j - 8)"
          using s by (simp only: e1 list.sel)
        moreover have "8 \<le> i" using 3 Suc by simp
        ultimately show ?thesis using ih a b 3 by simp
      qed
    qed
  qed
qed

lemma scanMatch_clean_start:
  assumes m: "matchTimestamp (drop p s)" and c: "p = 0 \<or> \<not> isDigit (s ! (p - 1))"
  shows "scanMatch s p"
proof -
  from m have len: "p + 12 \<le> length s" by (auto simp add: matchTimestamp_nth)
  have a: "\<not> scanMatch s (p - 10)" if "10 \<le> p"
  proof
    assume "scanMatch s (p - 10)"
    then have "matchTimestamp (drop (p - 10) s)" by (rule scanMatch_match)
    moreover have "matchTimestamp (drop 10 (drop (p - 10) s))" using m that by simp
    ultimately have "isDigit (drop (p - 10) s ! (10 - 1))"
      by (rule timestamps_overlap) simp_all
    moreover have "drop (p - 10) s ! 9 = s ! (p - 1)"
    proof -
      from that have "p - 10 + 9 = p - 1" by arith
      with len that show ?thesis by simp
    qed
    ultimately show False using c that by simp
  qed
  have b: "\<not> scanMatch s (p - 11)" if "11 \<le> p"
  proof
    assume "scanMatch s (p - 11)"
    then have "matchTimestamp (drop (p - 11) s)" by (rule scanMatch_match)
    moreover have "matchTimestamp (drop 11 (drop (p - 11) s))" using m that by simp
    ultimately have "isDigit (drop (p - 11) s ! (11 - 1))"
      by (rule timestamps_overlap) simp_all
    moreover have "drop (p - 11) s ! 10 = s ! (p - 1)"
    proof -
      from that have "p - 11 + 10 = p - 1" by arith
      with len that show ?thesis by simp
    qed
    ultimately show False using c that by simp
  qed
  show ?thesis
    using m a b scanMatch_unfold [of s p] by blast
qed

lemma scanMatch_skipped:
  assumes "matchTimestamp (drop p s)" and "\<not> scanMatch s p"
  shows "(10 \<le> p \<and> scanMatch s (p - 10)) \<or> (11 \<le> p \<and> scanMatch s (p - 11))"
  using assms scanMatch_unfold [of s p] by blast

lemma scanMatch_disjoint:
  assumes q: "scanMatch s q" and p: "scanMatch s p" and "q < p"
  shows "q + 12 \<le> p"
proof (rule ccontr)
  assume "\<not> q + 12 \<le> p"
  with \<open>q < p\<close> have d: "0 < p - q" "p - q < 12" by arith+
  have "matchTimestamp (drop q s)" using q by (rule scanMatch_match)
  moreover have "matchTimestamp (drop (p - q) (drop q s))"
    using scanMatch_match [OF p] \<open>q < p\<close> by simp
  ultimately have "p - q = 10 \<or> p - q = 11" using d by (rule timestamps_apart)
  then have "(10 \<le> p \<and> p - 10 = q) \<or> (11 \<le> p \<and> p - 11 = q)" by arith
  with q show False
    using p scanMatch_unfold [of s p] by auto
qed

text \<open>
  Claim C6, amended. The output is the header followed by the input with line endings
  normalised (every CR LF and every remaining CR becomes LF), of the same length as that
  text and equal to it character by character, except that the comma of every timestamp
  \<^verbatim>\<open>HH:MM:SS,mmm\<close> that the scan finds is a period. The scan finds exactly the runs of that
  form that do not start 10 or 11 characters after a timestamp it has found, the only
  distances at which two such runs overlap: so it finds every timestamp that starts the
  text or follows a character that is not a digit, the timestamps it finds do not
  overlap, and a run it skips is overlapped by one it has found.
  \<^verbatim>\<open>00:00:01,000 --> 00:00:02,000\<close> gives \<^verbatim>\<open>00:00:01.000 --> 00:00:02.000\<close>.
\<close>

theorem srtToVtt_timestamps:
  "srtToVtt ''00:00:01,000 --> 00:00:02,000'' = WEBVTT_header @ ''00:00:01.000 --> 00:00:02.000''
   \<and> (\<exists>n out. n = lineEndings_spec s \<and> srtToVtt s = WEBVTT_header @ out
        \<and> CR \<notin> set n \<and> length out = length n
        \<and> (\<forall>i < length n.
              out ! i = (if 8 \<le> i \<and> scanMatch n (i - 8) then CHR ''.'' else n ! i))
        \<and> (\<forall>p. scanMatch n p \<longrightarrow> matchTimestamp (drop p n) \<and> n ! (p + 8) = CHR '','')
        \<and> (\<forall>p. matchTimestamp (drop p n) \<and> (p = 0 \<or> \<not> isDigit (n ! (p - 1)))
              \<longrightarrow> scanMatch n p)
        \<and> (\<forall>p. matchTimestamp (drop p n) \<and> \<not> scanMatch n p
              \<longrightarrow> (10 \<le> p \<and> scanMatch n (p - 10)) \<or> (11 \<le> p \<and> scanMatch n (p - 11)))
        \<and> (\<forall>p q. scanMatch n q \<and> scanMatch n p \<and> q < p \<longrightarrow> q + 12 \<le> p)
        \<and> (\<forall>p d. matchTimestamp (drop p n) \<and> matchTimestamp (drop (p + d) n)
              \<and> 0 < d \<and> d < 12 \<longrightarrow> d = 10 \<or> d = 11))"
proof
  show "srtToVtt ''00:00:01,000 --> 00:00:02,000'' =
        WEBVTT_header @ ''00:00:01.000 --> 00:00:02.000''"
    by code_simp
next
  let ?n = "lineEndings_spec s"
  let ?out = "replaceTimestamps ?n"
  have a: "srtToVtt s = WEBVTT_header @ ?out"
    by (simp add: srtToVtt_def normalizeLineEndings_spec)
  have b: "CR \<notin> set ?n" by (rule CR_notin_lineEndings_spec)
  have c: "length ?out = length ?n" by (rule length_replaceTimestamps)
  have d: "\<forall>i < length ?n.
              ?out ! i = (if 8 \<le> i \<and> scanMatch ?n (i - 8) then CHR ''.'' else ?n ! i)"
    using replaceTimestamps_nth by blast
  have e: "\<forall>p. scanMatch ?n p \<longrightarrow> matchTimestamp (drop p ?n) \<and> ?n ! (p + 8) = CHR '',''"
  proof (intro allI impI)
    fix p
    assume "scanMatch ?n p"
    then have m: "matchTimestamp (drop p ?n)" by (rule scanMatch_match)
    then have "p + 12 \<le> length ?n" and "drop p ?n ! 8 = CHR '',''"
      by (auto simp add: matchTimestamp_nth)
    then have "?n ! (p + 8) = CHR '',''" by simp
    with m show "matchTimestamp (drop p ?n) \<and> ?n ! (p + 8) = CHR '',''" by simp
  qed
  have f: "\<forall>p. matchTimestamp (drop p ?n) \<and> (p = 0 \<or> \<not> isDigit (?n ! (p - 1)))
              \<longrightarrow> scanMatch ?n p"
    using scanMatch_clean_start by blast
  have g: "\<forall>p. matchTimestamp (drop p ?n) \<and> \<not> scanMatch ?n p
              \<longrightarrow> (10 \<le> p \<and> scanMatch ?n (p - 10)) \<or> (11 \<le> p \<and> scanMatch ?n (p - 11))"
    using scanMatch_skipped by blast
  have h: "\<forall>p q. scanMatch ?n q \<and> scanMatch ?n p \<and> q < p \<longrightarrow> q + 12 \<le> p"
    using scanMatch_disjoint by blast
  have k: "\<forall>p d. matchTimestamp (drop p ?n) \<and> matchTimestamp (drop (p + d) ?n)
              \<and> 0 < d \<and> d < 12 \<longrightarrow> d = 10 \<or> d = 11"
  proof (intro allI impI)
    fix p d
    assume h: "matchTimestamp (drop p ?n) \<and> matchTimestamp (drop (p + d) ?n) \<and> 0 < d \<and> d < 12"
    then have "matchTimestamp (drop d (drop p ?n))" by (simp add: add.commute)
    with h show "d = 10 \<or> d = 11"
      using timestamps_apart [of "drop p ?n" d] by blast
  qed
  from a b c d e f g h k
  show "\<exists>n out. n = lineEndings_spec s \<and> srtToVtt s = WEBVTT_header @ out
        \<and> CR \<notin> set n \<and> length out = length n
        \<and> (\<forall>i < length n.
              out ! i = (if 8 \<le> i \<and> scanMatch n (i - 8) then CHR ''.'' else n ! i))
        \<and> (\<forall>p. scanMatch n p \<longrightarrow> matchTimestamp (drop p n) \<and> n ! (p + 8) = CHR '','')
        \<and> (\<forall>p. matchTimestamp (drop p n) \<and> (p = 0 \<or> \<not> isDigit (n ! (p - 1)))
              \<longrightarrow> scanMatch n p)
        \<and> (\<forall>p. matchTimestamp (drop p n) \<and> \<not> scanMatch n p
              \<longrightarrow> (10 \<le> p \<and> scanMatch n (p - 10)) \<or> (11 \<le> p \<and> scanMatch n (p - 11)))
        \<and> (\<forall>p q. scanMatch n q \<and> scanMatch n p \<and> q < p \<longrightarrow> q + 12 \<le> p)
        \<and> (\<forall>p d. matchTimestamp (drop p n) \<and> matchTimestamp (drop (p + d) n)
              \<and> 0 < d \<and> d < 12 \<longrightarrow> d = 10 \<or> d = 11)"
    by blast
qed

text \<open>
  The theorem at a cue with a CR LF line end and a comma in its text, whose second
  timestamp follows a digit-free arrow, and at the hour \<^verbatim>\<open>100\<close>, whose timestamp
  follows a digit.
\<close>

theorem srtToVtt_timestamps_witness:
  "(\<exists>out. srtToVtt (''00:00:01,000 --> 00:00:02,000'' @ [CR, LF] @ ''Hi, there'')
           = WEBVTT_header @ out
     \<and> length out = 39 \<and> out ! 8 = CHR ''.'' \<and> out ! 25 = CHR ''.'' \<and> out ! 29 = LF
     \<and> out ! 32 = CHR '','')
   \<and> (\<exists>out. srtToVtt ''100:00:01,000'' = WEBVTT_header @ out \<and> out ! 9 = CHR ''.'')"
proof
  let ?s = "''00:00:01,000 --> 00:00:02,000'' @ [CR, LF] @ ''Hi, there''"
  have n: "lineEndings_spec ?s = ''00:00:01,000 --> 00:00:02,000'' @ [LF] @ ''Hi, there''"
    by simp
  from srtToVtt_timestamps [of ?s] obtain out where
    out: "srtToVtt ?s = WEBVTT_header @ out" and len: "length out = length (lineEndings_spec ?s)"
    and ch: "\<forall>i < length (lineEndings_spec ?s).
              out ! i = (if 8 \<le> i \<and> scanMatch (lineEndings_spec ?s) (i - 8) then CHR ''.''
                         else lineEndings_spec ?s ! i)"
    and found: "\<forall>p. scanMatch (lineEndings_spec ?s) p \<longrightarrow>
                  matchTimestamp (drop p (lineEndings_spec ?s))
                  \<and> lineEndings_spec ?s ! (p + 8) = CHR '',''"
    and hit: "\<forall>p. matchTimestamp (drop p (lineEndings_spec ?s))
                \<and> (p = 0 \<or> \<not> isDigit (lineEndings_spec ?s ! (p - 1)))
              \<longrightarrow> scanMatch (lineEndings_spec ?s) p"
    by blast
  have l: "length out = 39" using len unfolding n by simp
  have "matchTimestamp (drop 0 (lineEndings_spec ?s))" unfolding n by (simp add: isDigit_def)
  with hit have s0: "scanMatch (lineEndings_spec ?s) (8 - 8)" by simp
  have "matchTimestamp (drop 17 (lineEndings_spec ?s))
        \<and> \<not> isDigit (lineEndings_spec ?s ! (17 - 1))" unfolding n by (simp add: isDigit_def)
  with hit have s17: "scanMatch (lineEndings_spec ?s) (25 - 8)" by simp
  have "\<not> matchTimestamp (drop (29 - 8) (lineEndings_spec ?s))" unfolding n by simp
  with found have s21: "\<not> scanMatch (lineEndings_spec ?s) (29 - 8)" by blast
  have "\<not> matchTimestamp (drop (32 - 8) (lineEndings_spec ?s))" unfolding n by simp
  with found have s24: "\<not> scanMatch (lineEndings_spec ?s) (32 - 8)" by blast
  have b: "(8::nat) < length (lineEndings_spec ?s)" "(25::nat) < length (lineEndings_spec ?s)"
    "(29::nat) < length (lineEndings_spec ?s)" "(32::nat) < length (lineEndings_spec ?s)"
    unfolding n by simp_all
  from ch b(1) s0 have h8: "out ! 8 = CHR ''.''" by simp
  from ch b(2) s17 have h25: "out ! 25 = CHR ''.''" by simp
  from ch b(3) s21 have "out ! 29 = lineEndings_spec ?s ! 29" by simp
  then have h29: "out ! 29 = LF" unfolding n by simp
  from ch b(4) s24 have "out ! 32 = lineEndings_spec ?s ! 32" by simp
  then have h32: "out ! 32 = CHR '',''" unfolding n by simp
  from out l h8 h25 h29 h32
  show "\<exists>out. srtToVtt ?s = WEBVTT_header @ out
     \<and> length out = 39 \<and> out ! 8 = CHR ''.'' \<and> out ! 25 = CHR ''.'' \<and> out ! 29 = LF
     \<and> out ! 32 = CHR '',''"
    by blast
next
  let ?t = "''100:00:01,000''"
  have n: "lineEndings_spec ?t = ?t" by simp
  from srtToVtt_timestamps [of ?t] obtain out where
    out: "srtToVtt ?t = WEBVTT_header @ out"
    and ch: "\<forall>i < length (lineEndings_spec ?t).
              out ! i = (if 8 \<le> i \<and> scanMatch (lineEndings_spec ?t) (i - 8) then CHR ''.''
                         else lineEndings_spec ?t ! i)"
    and skipped: "\<forall>p. matchTimestamp (drop p (lineEndings_spec ?t))
                    \<and> \<not> scanMatch (lineEndings_spec ?t) p
              \<longrightarrow> (10 \<le> p \<and> scanMatch (lineEndings_spec ?t) (p - 10))
                  \<or> (11 \<le> p \<and> scanMatch (lineEndings_spec ?t) (p - 11))"
    by blast
  have "matchTimestamp (drop 1 (lineEndings_spec ?t))" unfolding n by (simp add: isDigit_def)
  with skipped have "scanMatch (lineEndings_spec ?t) 1" by fastforce
  then have s1: "scanMatch (lineEndings_spec ?t) (9 - 8)" by simp
  have "(9::nat) < length (lineEndings_spec ?t)" unfolding n by simp
  with ch s1 have "out ! 9 = CHR ''.''" by simp
  with out show "\<exists>out. srtToVtt ?t = WEBVTT_header @ out \<and> out ! 9 = CHR ''.''" by blast
qed

section \<open>Properties of the relink matcher\<close>

lemma map_of_map_set: "map_of (map_set m k v) = (map_of m)(k \<mapsto> v)"
  by (induction m k v rule: map_set.induct) auto

lemma keys_map_set: "set (map fst (map_set m k v)) = insert k (set (map fst m))"
  by (induction m k v rule: map_set.induct) auto

lemma distinct_map_set: "distinct (map fst m) \<Longrightarrow> distinct (map fst (map_set m k v))"
proof (induction m k v rule: map_set.induct)
  case (1 k v)
  then show ?case by simp
next
  case (2 k' v' m k v)
  then show ?case
    using keys_map_set [of m k v] by auto
qed

lemma find_SomeD: "find P xs = Some x \<Longrightarrow> x \<in> set xs \<and> P x"
  by (induction xs) (auto split: if_splits)

lemma firstKey_map_set:
  "firstKey P (map_set m k v) =
     (case firstKey P m of Some k' \<Rightarrow> Some k' | None \<Rightarrow> if P k then Some k else None)"
  by (induction m k v rule: map_set.induct) (auto simp add: firstKey_def split: option.splits)

lemma map_of_fileMap_gen:
  "map_of (foldl (\<lambda>fileMap f. map_set fileMap (fileKey f) f) m batch) k =
     (case filter (\<lambda>f. fileKey f = k) batch of
        [] \<Rightarrow> map_of m k
      | f # fs \<Rightarrow> Some (last (f # fs)))"
proof (induction batch arbitrary: m)
  case Nil
  show ?case by simp
next
  case (Cons a batch)
  show ?case
    by (simp add: Cons.IH map_of_map_set split: list.splits)
qed

lemma map_of_buildFileMap:
  "map_of (buildFileMap batch) k =
     (case find (\<lambda>f. fileKey f = k) batch of
        None \<Rightarrow> None
      | Some f \<Rightarrow> Some (entryFor batch k))"
proof (cases "filter (\<lambda>f. fileKey f = k) batch")
  case Nil
  then have "find (\<lambda>f. fileKey f = k) batch = None"
    by (simp add: find_None_iff filter_empty_conv)
  with Nil show ?thesis
    by (simp add: buildFileMap_def map_of_fileMap_gen)
next
  case (Cons f fs)
  then have "f \<in> set (filter (\<lambda>f. fileKey f = k) batch)" by simp
  then have "\<exists>x. x \<in> set batch \<and> fileKey x = k" by auto
  then obtain g where "find (\<lambda>f. fileKey f = k) batch = Some g"
    by (cases "find (\<lambda>f. fileKey f = k) batch") (auto simp add: find_None_iff)
  with Cons show ?thesis
    by (simp add: buildFileMap_def map_of_fileMap_gen entryFor_def)
qed

lemma distinct_fileMap_gen:
  "distinct (map fst m) \<Longrightarrow>
   distinct (map fst (foldl (\<lambda>fileMap f. map_set fileMap (fileKey f) f) m batch))"
  by (induction batch arbitrary: m) (simp_all add: distinct_map_set)

lemma distinct_buildFileMap: "distinct (map fst (buildFileMap batch))"
  by (simp add: buildFileMap_def distinct_fileMap_gen)

lemma firstKey_fileMap_gen:
  "firstKey P (foldl (\<lambda>fileMap f. map_set fileMap (fileKey f) f) m batch) =
     (case firstKey P m of
        Some k' \<Rightarrow> Some k'
      | None \<Rightarrow> map_option fileKey (find (\<lambda>f. P (fileKey f)) batch))"
proof (induction batch arbitrary: m)
  case Nil
  show ?case by (simp split: option.splits)
next
  case (Cons a batch)
  show ?case
    by (simp add: Cons.IH firstKey_map_set split: option.splits)
qed

lemma firstKey_buildFileMap:
  "firstKey P (buildFileMap batch) = map_option fileKey (find (\<lambda>f. P (fileKey f)) batch)"
  using firstKey_fileMap_gen [of P "[]" batch]
  by (simp add: buildFileMap_def firstKey_def)

lemma find_buildFileMap:
  "find (\<lambda>e. P (fst e)) (buildFileMap batch) =
     (case find (\<lambda>f. P (fileKey f)) batch of
        None \<Rightarrow> None
      | Some g \<Rightarrow> Some (fileKey g, entryFor batch (fileKey g)))"
proof (cases "find (\<lambda>f. P (fileKey f)) batch")
  case None
  with firstKey_buildFileMap [of P batch] show ?thesis
    by (simp add: firstKey_def)
next
  case (Some g)
  with firstKey_buildFileMap [of P batch]
  obtain e where e: "find (\<lambda>e. P (fst e)) (buildFileMap batch) = Some e" and k: "fst e = fileKey g"
    by (auto simp add: firstKey_def)
  from e have "e \<in> set (buildFileMap batch)"
    by (simp add: find_SomeD)
  then have "map_of (buildFileMap batch) (fst e) = Some (snd e)"
    using distinct_buildFileMap [of batch] by simp
  moreover from Some have "g \<in> set batch" by (simp add: find_SomeD)
  then have "find (\<lambda>f. fileKey f = fileKey g) batch \<noteq> None"
    by (auto simp add: find_None_iff)
  ultimately have "snd e = entryFor batch (fileKey g)"
    using map_of_buildFileMap [of batch "fileKey g"] k by (auto split: option.splits)
  with e k Some show ?thesis by (cases e) simp
qed

lemma relinkVideo_by_key: "relinkVideo (buildFileMap batch) v = relink_by_key batch v"
proof -
  let ?seg = "last (split_chr (CHR ''/'') (v_relativePath v))"
  have scan: "map_option snd (find (\<lambda>entry. endsWith (fst entry) ?seg) (buildFileMap batch)) =
      map_option (\<lambda>g. entryFor batch (fileKey g)) (find (\<lambda>f. endsWith (fileKey f) ?seg) batch)"
    using find_buildFileMap [of "\<lambda>p. endsWith p ?seg" batch] by (simp split: option.splits)
  have seg: "(if ?seg \<noteq> [] then ?seg else []) = ?seg" by simp
  show ?thesis
  proof (cases "find (\<lambda>f. fileKey f = v_relativePath v) batch")
    case None
    then have "map_of (buildFileMap batch) (v_relativePath v) = None"
      by (simp add: map_of_buildFileMap)
    with None show ?thesis
      unfolding relinkVideo_def relink_by_key_def lastSegment_def Let_def seg scan
      by (simp split: option.splits)
  next
    case (Some f)
    then have k: "fileKey f = v_relativePath v" using find_SomeD by fastforce
    from Some have "map_of (buildFileMap batch) (v_relativePath v)
        = Some (entryFor batch (v_relativePath v))"
      by (simp add: map_of_buildFileMap)
    with Some k show ?thesis
      unfolding relinkVideo_def relink_by_key_def Let_def
      by simp
  qed
qed

lemma entryFor_distinct:
  "distinct (map fileKey batch) \<Longrightarrow> f \<in> set batch \<Longrightarrow> entryFor batch (fileKey f) = f"
proof (induction batch)
  case Nil
  then show ?case by simp
next
  case (Cons a batch)
  show ?case
  proof (cases "f = a")
    case True
    from Cons.prems have "fileKey a \<notin> fileKey ` set batch" by simp
    then have "filter (\<lambda>x. fileKey x = fileKey a) batch = []"
      by (metis (mono_tags, lifting) filter_False image_eqI)
    with True show ?thesis by (simp add: entryFor_def)
  next
    case False
    with Cons.prems have fb: "f \<in> set batch" and ne: "fileKey a \<noteq> fileKey f" by auto
    with Cons have "entryFor batch (fileKey f) = f" by simp
    with ne show ?thesis by (simp add: entryFor_def)
  qed
qed

lemma split_chr_nonempty: "split_chr c s \<noteq> []"
  by (induction s) (auto split: list.splits)

lemma split_chr_snoc: "split_chr c (xs @ [c]) = split_chr c xs @ [[]]"
proof (induction xs)
  case Nil
  show ?case by simp
next
  case (Cons x xs)
  obtain y ys where "split_chr c xs = y # ys"
    using split_chr_nonempty [of c xs] by (cases "split_chr c xs") auto
  with Cons show ?case by simp
qed

lemma lastSegment_trailing_slash:
  assumes "endsWith path ''/''"
  shows "lastSegment path = []"
proof -
  from assms have ne: "path \<noteq> []" and "drop (length path - 1) path = ''/''"
    by (auto simp add: endsWith_def)
  then have "last path = CHR ''/''"
    by (metis last_drop last.simps diff_less length_greater_0_conv zero_less_one)
  with ne have "path = butlast path @ [CHR ''/'']"
    by (metis append_butlast_last_id)
  then have "split_chr (CHR ''/'') path = split_chr (CHR ''/'') (butlast path) @ [[]]"
    using split_chr_snoc [of "CHR ''/''" "butlast path"] by simp
  then show ?thesis by (simp add: lastSegment_def)
qed

lemma endsWith_empty: "endsWith s []"
  by (simp add: endsWith_def)

lemma relink_by_key_paths:
  assumes paths: "\<forall>f \<in> set batch. file_webkitRelativePath f \<noteq> []"
  shows "relink_by_key batch v = relink_spec batch v"
proof -
  have key: "fileKey f = file_webkitRelativePath f" if "f \<in> set batch" for f
    using that paths by (simp add: fileKey_def)
  have entry: "entryFor batch p = entryAt batch p" for p
  proof -
    have "filter (\<lambda>f. fileKey f = p) batch = filter (\<lambda>f. file_webkitRelativePath f = p) batch"
      by (rule filter_cong) (simp_all add: key)
    then show ?thesis by (simp add: entryFor_def entryAt_def)
  qed
  have f1: "find (\<lambda>f. fileKey f = v_relativePath v) batch
      = find (\<lambda>f. file_webkitRelativePath f = v_relativePath v) batch"
    by (rule find_cong) (simp_all add: key)
  have f2: "find (\<lambda>f. endsWith (fileKey f) (lastSegment (v_relativePath v))) batch
      = find (\<lambda>f. endsWith (file_webkitRelativePath f) (lastSegment (v_relativePath v))) batch"
    by (rule find_cong) (simp_all add: key)
  have k: "fileKey f = file_webkitRelativePath f" if "find P batch = Some f" for P f
    using that key find_SomeD [of P batch f] by blast
  show ?thesis
    unfolding relink_by_key_def relink_spec_def f1 f2 entry
    by (auto split: option.splits simp add: k)
qed

lemma entryAt_distinct:
  "distinct (map file_webkitRelativePath batch) \<Longrightarrow> f \<in> set batch \<Longrightarrow>
   entryAt batch (file_webkitRelativePath f) = f"
proof (induction batch)
  case Nil
  then show ?case by simp
next
  case (Cons a batch)
  show ?case
  proof (cases "f = a")
    case True
    from Cons.prems have "file_webkitRelativePath a \<notin> file_webkitRelativePath ` set batch"
      by simp
    then have "filter (\<lambda>x. file_webkitRelativePath x = file_webkitRelativePath a) batch = []"
      by (metis (mono_tags, lifting) filter_False image_eqI)
    with True show ?thesis by (simp add: entryAt_def)
  next
    case False
    with Cons.prems have fb: "f \<in> set batch"
      and ne: "file_webkitRelativePath a \<noteq> file_webkitRelativePath f" by auto
    with Cons have "entryAt batch (file_webkitRelativePath f) = f" by simp
    with ne show ?thesis by (simp add: entryAt_def)
  qed
qed

text \<open>
  Claim C3. For a batch whose entries all carry a relative path, as the entries of a
  folder grant do, relinking binds each asset to the batch entry whose relative path
  equals the stored \<^verbatim>\<open>relativePath\<close> when there is one; otherwise to the entry at the
  first relative path, in batch order, that ends with the last segment of the stored
  path; otherwise the asset is left as it was, so an absent handle stays absent. When
  the relative paths of the batch are distinct, the entry at the relative path of a batch
  entry is that entry.
\<close>

theorem relink_binding:
  "((\<forall>f \<in> set batch. file_webkitRelativePath f \<noteq> []) \<longrightarrow>
      reducer st (UPDATE_PATHS batch) = st\<lparr>videos := map (relink_spec batch) (videos st)\<rparr>)
   \<and> (distinct (map file_webkitRelativePath batch) \<longrightarrow>
        (\<forall>f \<in> set batch. entryAt batch (file_webkitRelativePath f) = f))"
  by (simp add: relinkVideo_by_key relink_by_key_paths entryAt_distinct)

text \<open>
  A run with an exact match in the middle of entries of the same file name, two suffix
  matches and a total miss.
\<close>

theorem relink_binding_witness:
  "map v_fileHandle
     (videos (reducer \<lparr>collections = [],
                       videos = [example_asset ''A/B/movie.mp4'', example_asset ''Q/other.mp4'',
                                 example_asset ''D/E/movie.mp4'', example_asset ''Z/none.mkv'']\<rparr>
        (UPDATE_PATHS [example_file ''X/movie.mp4'', example_file ''A/B/movie.mp4'',
                       example_file ''Y/movie.mp4'', example_file ''A/B/other.mp4''])))
   = [Some (FileObj (example_file ''A/B/movie.mp4'')),
      Some (FileObj (example_file ''A/B/other.mp4'')),
      Some (FileObj (example_file ''X/movie.mp4'')), None]"
proof -
  let ?batch = "[example_file ''X/movie.mp4'', example_file ''A/B/movie.mp4'',
                 example_file ''Y/movie.mp4'', example_file ''A/B/other.mp4'']"
  let ?st = "\<lparr>collections = [],
              videos = [example_asset ''A/B/movie.mp4'', example_asset ''Q/other.mp4'',
                        example_asset ''D/E/movie.mp4'', example_asset ''Z/none.mkv'']\<rparr>"
  have ne: "\<forall>f \<in> set ?batch. file_webkitRelativePath f \<noteq> []"
    by (simp add: example_file_def)
  have d: "distinct (map file_webkitRelativePath ?batch)"
    by (simp add: example_file_def)
  from relink_binding [of ?batch ?st] ne d
  have eq: "reducer ?st (UPDATE_PATHS ?batch) = ?st\<lparr>videos := map (relink_spec ?batch) (videos ?st)\<rparr>"
    and e: "\<forall>f \<in> set ?batch. entryAt ?batch (file_webkitRelativePath f) = f"
    by blast+
  from e have e1: "entryAt ?batch (file_webkitRelativePath (example_file ''A/B/movie.mp4''))
        = example_file ''A/B/movie.mp4''"
    and e2: "entryAt ?batch (file_webkitRelativePath (example_file ''A/B/other.mp4''))
        = example_file ''A/B/other.mp4''"
    and e3: "entryAt ?batch (file_webkitRelativePath (example_file ''X/movie.mp4''))
        = example_file ''X/movie.mp4''"
    by simp_all
  have r1: "relink_spec ?batch (example_asset ''A/B/movie.mp4'') =
      (example_asset ''A/B/movie.mp4'')\<lparr>v_fileHandle :=
         Some (FileObj (entryAt ?batch (file_webkitRelativePath (example_file ''A/B/movie.mp4''))))\<rparr>"
    by (simp add: relink_spec_def example_file_def example_asset_def)
  have r2: "relink_spec ?batch (example_asset ''Q/other.mp4'') =
      (example_asset ''Q/other.mp4'')\<lparr>v_fileHandle :=
         Some (FileObj (entryAt ?batch (file_webkitRelativePath (example_file ''A/B/other.mp4''))))\<rparr>"
    by (simp add: relink_spec_def example_file_def example_asset_def
        lastSegment_def endsWith_def)
  have r3: "relink_spec ?batch (example_asset ''D/E/movie.mp4'') =
      (example_asset ''D/E/movie.mp4'')\<lparr>v_fileHandle :=
         Some (FileObj (entryAt ?batch (file_webkitRelativePath (example_file ''X/movie.mp4''))))\<rparr>"
    by (simp add: relink_spec_def example_file_def example_asset_def
        lastSegment_def endsWith_def)
  have r4: "relink_spec ?batch (example_asset ''Z/none.mkv'') = example_asset ''Z/none.mkv''"
    by (simp add: relink_spec_def example_file_def example_asset_def
        lastSegment_def endsWith_def)
  have "v_fileHandle (example_asset ''Z/none.mkv'') = None"
    by (simp add: example_asset_def)
  then show ?thesis
    unfolding eq by (simp add: r1 r2 r3 r4 e1 e2 e3)
qed

text \<open>
  Claim C9, as stated, at two concrete batches for the same persisted asset: one leaves
  it unresolved, the other resolves it, and what the handler reports is the same text.
  No count of unresolved assets reaches the caller.
\<close>

theorem relink_count_counterexample:
  "snd (handleUpdatePaths \<lparr>collections = [], videos = [example_asset ''A/B/movie.mp4'']\<rparr>
          [example_file ''X/other.mkv''])
   = snd (handleUpdatePaths \<lparr>collections = [], videos = [example_asset ''A/B/movie.mp4'']\<rparr>
          [example_file ''X/movie.mp4''])
   \<and> unresolvedCount (fst (handleUpdatePaths
          \<lparr>collections = [], videos = [example_asset ''A/B/movie.mp4'']\<rparr>
          [example_file ''X/other.mkv''])) = 1
   \<and> unresolvedCount (fst (handleUpdatePaths
          \<lparr>collections = [], videos = [example_asset ''A/B/movie.mp4'']\<rparr>
          [example_file ''X/movie.mp4''])) = 0"
  by code_simp

text \<open>
  Claim C9, amended. An asset that matches no entry of the batch, neither exactly nor by
  the last segment of its path, is kept as it was (an absent handle stays absent); the
  list keeps its length and order and the collections are untouched; the handler reports
  a fixed text and no count.
\<close>

theorem relink_total_miss:
  assumes "k < length (videos st)"
    and "\<forall>f \<in> set batch. fileKey f \<noteq> v_relativePath (videos st ! k)
           \<and> \<not> endsWith (fileKey f) (lastSegment (v_relativePath (videos st ! k)))"
  shows "videos (fst (handleUpdatePaths st batch)) ! k = videos st ! k
    \<and> length (videos (fst (handleUpdatePaths st batch))) = length (videos st)
    \<and> collections (fst (handleUpdatePaths st batch)) = collections st
    \<and> snd (handleUpdatePaths st batch) = ''Paths updated. Please verify playback.''"
proof -
  let ?v = "videos st ! k"
  from assms(2) have "find (\<lambda>f. fileKey f = v_relativePath ?v) batch = None"
    and "find (\<lambda>f. endsWith (fileKey f) (lastSegment (v_relativePath ?v))) batch = None"
    by (simp_all add: find_None_iff)
  then have "relink_by_key batch ?v = ?v"
    by (simp add: relink_by_key_def)
  with assms(1) show ?thesis
    by (simp add: handleUpdatePaths_def relinkVideo_by_key)
qed

text \<open>A persisted asset and a batch without any match for it.\<close>

theorem relink_total_miss_witness:
  "v_fileHandle (videos (fst (handleUpdatePaths
      \<lparr>collections = [], videos = [example_asset ''A/B/movie.mp4'']\<rparr>
      [example_file ''X/other.mkv''])) ! 0) = None"
proof -
  let ?st = "\<lparr>collections = [], videos = [example_asset ''A/B/movie.mp4'']\<rparr>"
  let ?batch = "[example_file ''X/other.mkv'']"
  have k: "0 < length (videos ?st)" by simp
  have miss: "\<forall>f \<in> set ?batch. fileKey f \<noteq> v_relativePath (videos ?st ! 0)
           \<and> \<not> endsWith (fileKey f) (lastSegment (v_relativePath (videos ?st ! 0)))"
    by (simp add: fileKey_def example_file_def example_asset_def lastSegment_def endsWith_def)
  from relink_total_miss [OF k miss]
  have "videos (fst (handleUpdatePaths ?st ?batch)) ! 0 = videos ?st ! 0" by blast
  then show ?thesis by (simp add: example_asset_def)
qed

text \<open>
  Claim C10. A stored path that ends with a slash has an empty last segment; without an
  exact match the scan then stops at the first path of the lookup, which is the path of
  the first batch entry, and the asset is bound to the entry for it: the first entry of
  the batch when the paths of the batch are distinct.
\<close>

theorem relink_trailing_slash:
  assumes "batch \<noteq> []" and "endsWith (v_relativePath v) ''/''"
    and "\<forall>f \<in> set batch. fileKey f \<noteq> v_relativePath v"
  shows "relinkVideo (buildFileMap batch) v
           = v\<lparr>v_fileHandle := Some (FileObj (entryFor batch (fileKey (hd batch))))\<rparr>
    \<and> (distinct (map fileKey batch) \<longrightarrow> entryFor batch (fileKey (hd batch)) = hd batch)"
proof -
  from assms(3) have ex: "find (\<lambda>f. fileKey f = v_relativePath v) batch = None"
    by (simp add: find_None_iff)
  from assms(2) have seg: "lastSegment (v_relativePath v) = []"
    by (rule lastSegment_trailing_slash)
  from assms(1) have "find (\<lambda>f. endsWith (fileKey f) []) batch = Some (hd batch)"
    by (cases batch) (simp_all add: endsWith_empty)
  with ex seg have "relink_by_key batch v
      = v\<lparr>v_fileHandle := Some (FileObj (entryFor batch (fileKey (hd batch))))\<rparr>"
    by (simp add: relink_by_key_def)
  moreover from assms(1) have "hd batch \<in> set batch" by simp
  ultimately show ?thesis
    by (simp add: relinkVideo_by_key entryFor_distinct)
qed

text \<open>A stored path \<^verbatim>\<open>A/B/\<close> against a batch of two files.\<close>

theorem relink_trailing_slash_witness:
  "v_fileHandle (relinkVideo
      (buildFileMap [example_file ''X/first.mkv'', example_file ''A/B/movie.mp4''])
      (example_asset ''A/B/''))
   = Some (FileObj (example_file ''X/first.mkv''))"
proof -
  let ?batch = "[example_file ''X/first.mkv'', example_file ''A/B/movie.mp4'']"
  let ?v = "example_asset ''A/B/''"
  have a: "?batch \<noteq> []" by simp
  have b: "endsWith (v_relativePath ?v) ''/''"
    by (simp add: example_asset_def endsWith_def)
  have c: "\<forall>f \<in> set ?batch. fileKey f \<noteq> v_relativePath ?v"
    by (simp add: fileKey_def example_file_def example_asset_def)
  have d: "distinct (map fileKey ?batch)"
    by (simp add: fileKey_def example_file_def)
  from relink_trailing_slash [OF a b c] d
  have "relinkVideo (buildFileMap ?batch) ?v = ?v\<lparr>v_fileHandle := Some (FileObj (hd ?batch))\<rparr>"
    by simp
  then show ?thesis by simp
qed

section \<open>Properties of the ingestion pass\<close>

lemma index_gen:
  "getOrEmpty (fst (foldl (indexFile env) (m1, m2) files)) dir
     = getOrEmpty m1 dir @ directoryImages env files dir
   \<and> getOrEmpty (snd (foldl (indexFile env) (m1, m2) files)) dir
     = getOrEmpty m2 dir @ directorySubtitles env files dir"
proof (induction files arbitrary: m1 m2)
  case Nil
  show ?case by (simp add: directoryImages_def directorySubtitles_def)
next
  case (Cons a files)
  obtain n1 n2 where step: "indexFile env (m1, m2) a = (n1, n2)"
    by (cases "indexFile env (m1, m2) a")
  have n1: "getOrEmpty n1 dir = getOrEmpty m1 dir @ directoryImages env [a] dir"
    using step by (auto simp add: indexFile_def Let_def getOrEmpty_def directoryImages_def
        split: if_splits)
  have n2: "getOrEmpty n2 dir = getOrEmpty m2 dir @ directorySubtitles env [a] dir"
    using step by (auto simp add: indexFile_def Let_def getOrEmpty_def directorySubtitles_def
        split: if_splits)
  have "directoryImages env (a # files) dir
      = directoryImages env [a] dir @ directoryImages env files dir"
    by (simp add: directoryImages_def)
  moreover have "directorySubtitles env (a # files) dir
      = directorySubtitles env [a] dir @ directorySubtitles env files dir"
    by (simp add: directorySubtitles_def)
  ultimately show ?case
    using Cons [of n1 n2] by (simp add: step n1 n2)
qed

lemma indexFiles_images:
  "getOrEmpty (fst (indexFiles env files)) dir = directoryImages env files dir"
  using index_gen [of env Map.empty Map.empty files dir]
  by (simp add: indexFiles_def getOrEmpty_def)

lemma indexFiles_subtitles:
  "getOrEmpty (snd (indexFiles env files)) dir = directorySubtitles env files dir"
  using index_gen [of env Map.empty Map.empty files dir]
  by (simp add: indexFiles_def getOrEmpty_def)

lemma push_loop:
  "foldl (\<lambda>acc f. if P f then acc @ [g (length acc) f] else acc) acc0 files
     = acc0 @ map (\<lambda>(k, f). g k f) (enumerate (length acc0) (filter P files))"
  by (induction files arbitrary: acc0) simp_all

lemma handleImportFiles_videos:
  "truthy sel \<Longrightarrow>
   handleImportFiles env sel files =
     Some (map (\<lambda>(k, f). importVideo env (the sel) files (indexFiles env files) k f)
            (enumerate 0 (filter (isVideoFile env) files)))"
  using push_loop [of "isVideoFile env" "importVideo env (the sel) files (indexFiles env files)" "[]" files]
  by (simp add: handleImportFiles_def Let_def)

lemma selectThumbnail_spec:
  assumes "\<forall>a \<in> set images. a_url a \<noteq> []"
  shows "selectThumbnail images baseName generated = thumbnail_spec images baseName generated"
proof -
  have ne: "a_url a \<noteq> []" if "find P images = Some a" for P a
    using that assms find_SomeD [of P images a] by blast
  show ?thesis
  proof (cases "find (\<lambda>a. a_name a \<in> set priorityNames) images")
    case (Some a)
    with ne [OF Some] show ?thesis
      by (simp add: selectThumbnail_def thumbnail_spec_def truthy_def)
  next
    case p1: None
    show ?thesis
    proof (cases "find (\<lambda>a. includes_str (a_name a) ''poster'') images")
      case (Some a)
      with p1 ne [OF Some] show ?thesis
        by (simp add: selectThumbnail_def thumbnail_spec_def truthy_def)
    next
      case p2: None
      show ?thesis
      proof (cases "find (\<lambda>a. a_name a = baseName) images")
        case (Some a)
        with p1 p2 ne [OF Some] show ?thesis
          by (simp add: selectThumbnail_def thumbnail_spec_def truthy_def)
      next
        case None
        with p1 p2 show ?thesis
          by (simp add: selectThumbnail_def thumbnail_spec_def truthy_def)
      qed
    qed
  qed
qed

lemma find_first_of_class:
  "(\<exists>a \<in> set xs. P a) \<Longrightarrow> \<exists>a. find P xs = Some a \<and> a \<in> set xs \<and> P a"
  by (cases "find P xs") (auto simp add: find_None_iff dest: find_SomeD)

text \<open>
  Claim C2. With blob URLs that are never empty, and whatever \<^verbatim>\<open>toLowerCase\<close> does, the
  thumbnail of an ingested video is chosen from the images of its own directory, by their
  stripped lower-cased names, in the order: first image with a priority name, else first
  image whose name contains \<^verbatim>\<open>poster\<close>, else first image named as the video, else the
  generated thumbnail. Whenever a class has an image and no earlier class has one, an
  image of that class is the one selected.
\<close>

theorem thumbnail_priority:
  assumes urls: "\<forall>f \<in> set files. createObjectURL env f \<noteq> []"
  shows "v_thumbnailUrl (importVideo env cid files (indexFiles env files) k video)
       = thumbnail_spec (directoryImages env files (dirOf video))
           (toLowerCase env (stripExtension (file_name video))) (generateVideoThumbnail env video)
    \<and> ((\<exists>a \<in> set images. a_name a \<in> set priorityNames) \<longrightarrow>
         (\<exists>a \<in> set images. a_name a \<in> set priorityNames
            \<and> thumbnail_spec images baseName generated = Some (a_url a)))
    \<and> (\<not> (\<exists>a \<in> set images. a_name a \<in> set priorityNames)
         \<and> (\<exists>a \<in> set images. includes_str (a_name a) ''poster'') \<longrightarrow>
         (\<exists>a \<in> set images. includes_str (a_name a) ''poster''
            \<and> thumbnail_spec images baseName generated = Some (a_url a)))
    \<and> (\<not> (\<exists>a \<in> set images. a_name a \<in> set priorityNames)
         \<and> \<not> (\<exists>a \<in> set images. includes_str (a_name a) ''poster'')
         \<and> (\<exists>a \<in> set images. a_name a = baseName) \<longrightarrow>
         (\<exists>a \<in> set images. a_name a = baseName
            \<and> thumbnail_spec images baseName generated = Some (a_url a)))
    \<and> (\<not> (\<exists>a \<in> set images. a_name a \<in> set priorityNames)
         \<and> \<not> (\<exists>a \<in> set images. includes_str (a_name a) ''poster'')
         \<and> \<not> (\<exists>a \<in> set images. a_name a = baseName) \<longrightarrow>
         thumbnail_spec images baseName generated
           = (if generated = [] then None else Some generated))"
proof (intro conjI impI)
  have "\<forall>a \<in> set (directoryImages env files (dirOf video)). a_url a \<noteq> []"
    using urls by (auto simp add: directoryImages_def)
  then show "v_thumbnailUrl (importVideo env cid files (indexFiles env files) k video)
       = thumbnail_spec (directoryImages env files (dirOf video))
           (toLowerCase env (stripExtension (file_name video))) (generateVideoThumbnail env video)"
    by (simp add: importVideo_def Let_def indexFiles_images selectThumbnail_spec)
next
  assume "\<exists>a \<in> set images. a_name a \<in> set priorityNames"
  from find_first_of_class [OF this]
  show "\<exists>a \<in> set images. a_name a \<in> set priorityNames
            \<and> thumbnail_spec images baseName generated = Some (a_url a)"
    by (auto simp add: thumbnail_spec_def)
next
  assume "\<not> (\<exists>a \<in> set images. a_name a \<in> set priorityNames)
         \<and> (\<exists>a \<in> set images. includes_str (a_name a) ''poster'')"
  then have n1: "find (\<lambda>a. a_name a \<in> set priorityNames) images = None"
    and e: "\<exists>a \<in> set images. includes_str (a_name a) ''poster''"
    by (simp_all add: find_None_iff)
  from find_first_of_class [OF e] n1
  show "\<exists>a \<in> set images. includes_str (a_name a) ''poster''
            \<and> thumbnail_spec images baseName generated = Some (a_url a)"
    by (auto simp add: thumbnail_spec_def)
next
  assume "\<not> (\<exists>a \<in> set images. a_name a \<in> set priorityNames)
         \<and> \<not> (\<exists>a \<in> set images. includes_str (a_name a) ''poster'')
         \<and> (\<exists>a \<in> set images. a_name a = baseName)"
  then have n1: "find (\<lambda>a. a_name a \<in> set priorityNames) images = None"
    and n2: "find (\<lambda>a. includes_str (a_name a) ''poster'') images = None"
    and e: "\<exists>a \<in> set images. a_name a = baseName"
    by (simp_all add: find_None_iff)
  from find_first_of_class [OF e] n1 n2
  show "\<exists>a \<in> set images. a_name a = baseName
            \<and> thumbnail_spec images baseName generated = Some (a_url a)"
    by (auto simp add: thumbnail_spec_def)
next
  assume "\<not> (\<exists>a \<in> set images. a_name a \<in> set priorityNames)
         \<and> \<not> (\<exists>a \<in> set images. includes_str (a_name a) ''poster'')
         \<and> \<not> (\<exists>a \<in> set images. a_name a = baseName)"
  then have "find (\<lambda>a. a_name a \<in> set priorityNames) images = None"
    and "find (\<lambda>a. includes_str (a_name a) ''poster'') images = None"
    and "find (\<lambda>a. a_name a = baseName) images = None"
    by (simp_all add: find_None_iff)
  then show "thumbnail_spec images baseName generated
           = (if generated = [] then None else Some generated)"
    by (simp add: thumbnail_spec_def)
qed

text \<open>
  A directory with an exact-name image, a \<^verbatim>\<open>poster\<close>-substring image and a priority-name
  image, in that order, and a priority-name image in another directory.
\<close>

theorem thumbnail_priority_witness:
  "v_thumbnailUrl
     (importVideo example_platform ''c1''
        [example_file ''A/movie.mp4'', example_image ''A/Movie.jpg'',
         example_image ''A/my-poster-art.jpg'', example_image ''A/cover.jpg'',
         example_image ''B/poster.jpg'']
        (indexFiles example_platform
           [example_file ''A/movie.mp4'', example_image ''A/Movie.jpg'',
            example_image ''A/my-poster-art.jpg'', example_image ''A/cover.jpg'',
            example_image ''B/poster.jpg''])
        0 (example_file ''A/movie.mp4''))
   = Some ''blob:A/cover.jpg''"
proof -
  let ?files = "[example_file ''A/movie.mp4'', example_image ''A/Movie.jpg'',
         example_image ''A/my-poster-art.jpg'', example_image ''A/cover.jpg'',
         example_image ''B/poster.jpg'']"
  have urls: "\<forall>f \<in> set ?files. createObjectURL example_platform f \<noteq> []"
    by (simp add: example_platform_def)
  have "thumbnail_spec (directoryImages example_platform ?files (dirOf (example_file ''A/movie.mp4'')))
          (toLowerCase example_platform (stripExtension (file_name (example_file ''A/movie.mp4''))))
          (generateVideoThumbnail example_platform (example_file ''A/movie.mp4''))
        = Some ''blob:A/cover.jpg''"
    by code_simp
  with thumbnail_priority [OF urls, of "''c1''" 0 "example_file ''A/movie.mp4''"]
  show ?thesis by simp
qed

section \<open>Properties of the sidecar resolver\<close>

lemma split_chr_append: "split_chr c (a @ c # b) = split_chr c a @ split_chr c b"
proof (induction a)
  case Nil
  show ?case by simp
next
  case (Cons x a)
  obtain y ys where "split_chr c a = y # ys"
    using split_chr_nonempty [of c a] by (cases "split_chr c a") auto
  with Cons show ?case by simp
qed

lemma split_chr_no_sep: "c \<notin> set s \<Longrightarrow> split_chr c s = [s]"
  by (induction s) auto

lemma length_split_chr: "length (split_chr c s) = Suc (length (filter (\<lambda>x. x = c) s))"
proof (induction s)
  case Nil
  show ?case by simp
next
  case (Cons x s)
  obtain y ys where "split_chr c s = y # ys"
    using split_chr_nonempty [of c s] by (cases "split_chr c s") auto
  with Cons show ?case by auto
qed

lemma lowersAscii_eval:
  "lowersAscii env \<Longrightarrow> isAscii s \<Longrightarrow> toLowerCase env s = asciiLowerCase s"
  by (simp add: lowersAscii_def)

lemma lowersAscii_example: "lowersAscii example_platform"
  by (simp add: lowersAscii_def example_platform_def)

lemma guessLanguage_two_periods:
  assumes low: "toLowerCase env nm = pre @ ''.'' @ seg @ ''.'' @ ext"
    and "CHR ''.'' \<notin> set seg" and "CHR ''.'' \<notin> set ext"
  shows "guessLanguage env nm = (if length seg = 2 then seg else ''en'')"
proof -
  let ?parts = "split_chr (CHR ''.'') (toLowerCase env nm)"
  let ?front = "split_chr (CHR ''.'') pre"
  from low have lower: "toLowerCase env nm = pre @ CHR ''.'' # (seg @ CHR ''.'' # ext)"
    by simp
  have parts: "?parts = ?front @ [seg, ext]"
    unfolding lower
    using assms(2,3)
    by (simp add: split_chr_append split_chr_no_sep)
  have n: "length ?parts - 2 = length ?front"
    unfolding parts by simp
  have big: "length ?parts > 2"
    unfolding parts
    using split_chr_nonempty [of "CHR ''.''" pre]
    by (cases ?front) simp_all
  have nth: "?parts ! (length ?parts - 2) = seg"
    unfolding n unfolding parts by simp
  show ?thesis
    using big nth unfolding guessLanguage_def Let_def by simp
qed

lemma guessLanguage_few_periods:
  assumes "length (filter (\<lambda>x. x = CHR ''.'') (toLowerCase env nm)) < 2"
  shows "guessLanguage env nm = ''en''"
  using assms by (simp add: guessLanguage_def Let_def length_split_chr)

lemma importVideo_subtitles:
  "v_subtitles (importVideo env cid files (indexFiles env files) k video)
     = map (subtitleTrack env)
         (filter (\<lambda>sub. \<not> isImage sub \<and> isSubtitleFile env sub \<and> dirOf sub = dirOf video
                    \<and> startsWith (toLowerCase env (file_name sub))
                         (toLowerCase env (stripExtension (file_name video)))) files)"
  by (simp add: importVideo_def Let_def indexFiles_subtitles matchedSubs_def
      directorySubtitles_def conj_ac)

text \<open>
  Claim C4, as stated, at a concrete batch of ASCII names: the video \<^verbatim>\<open>movie.s.mp4\<close> has
  the base name \<^verbatim>\<open>movie.s\<close>; the stripped name \<^verbatim>\<open>movie\<close> of \<^verbatim>\<open>movie.srt\<close> does not
  start with it, and the subtitle is attached all the same, since the test is made on the
  full lower-cased file name.
\<close>

theorem subtitle_matching_counterexample:
  "map (map label \<circ> v_subtitles)
     (the (handleImportFiles example_platform (Some ''c1'')
        [example_file ''A/movie.s.mp4'', example_file ''A/movie.srt'']))
   = [[''movie.srt'']]
   \<and> \<not> startsWith (toLowerCase example_platform (stripExtension ''movie.srt''))
         (toLowerCase example_platform (stripExtension ''movie.s.mp4''))"
  by code_simp

text \<open>
  Claim C4, amended. Whatever \<^verbatim>\<open>toLowerCase\<close> does, the subtitle tracks of an ingested
  video are, in batch order, exactly the subtitle files of its directory whose lower-cased
  file name, extension included, starts with the base name of the video (its file name
  up to the last period, lower-cased). With a \<^verbatim>\<open>toLowerCase\<close> that folds ASCII names as
  the platform's does, \<^verbatim>\<open>Movie.mp4\<close> acquires \<^verbatim>\<open>movie.srt\<close>, \<^verbatim>\<open>movie.en.srt\<close> and
  \<^verbatim>\<open>movie.en.forced.srt\<close> and not \<^verbatim>\<open>my_movie.srt\<close>.
\<close>

theorem subtitle_matching:
  "map st_fileHandle (v_subtitles (importVideo env cid files (indexFiles env files) k video))
     = map FileObj
         (filter (\<lambda>sub. \<not> isImage sub \<and> isSubtitleFile env sub \<and> dirOf sub = dirOf video
                    \<and> startsWith (toLowerCase env (file_name sub))
                         (toLowerCase env (stripExtension (file_name video)))) files)
   \<and> (lowersAscii env \<longrightarrow>
        matchedSubs env (toLowerCase env (stripExtension ''Movie.mp4''))
          (map example_file [''movie.srt'', ''movie.en.srt'', ''movie.en.forced.srt'',
                             ''my_movie.srt''])
        = map example_file [''movie.srt'', ''movie.en.srt'', ''movie.en.forced.srt''])"
proof (intro conjI impI)
  show "map st_fileHandle (v_subtitles (importVideo env cid files (indexFiles env files) k video))
     = map FileObj
         (filter (\<lambda>sub. \<not> isImage sub \<and> isSubtitleFile env sub \<and> dirOf sub = dirOf video
                    \<and> startsWith (toLowerCase env (file_name sub))
                         (toLowerCase env (stripExtension (file_name video)))) files)"
    by (simp add: importVideo_subtitles subtitleTrack_def comp_def)
next
  assume low: "lowersAscii env"
  have ascii: "isAscii (stripExtension ''Movie.mp4'')" "isAscii ''movie.srt''"
    "isAscii ''movie.en.srt''" "isAscii ''movie.en.forced.srt''" "isAscii ''my_movie.srt''"
    by code_simp+
  have names: "file_name (example_file ''movie.srt'') = ''movie.srt''"
    "file_name (example_file ''movie.en.srt'') = ''movie.en.srt''"
    "file_name (example_file ''movie.en.forced.srt'') = ''movie.en.forced.srt''"
    "file_name (example_file ''my_movie.srt'') = ''my_movie.srt''"
    by code_simp+
  have tests: "startsWith (asciiLowerCase ''movie.srt'') (asciiLowerCase (stripExtension ''Movie.mp4''))"
    "startsWith (asciiLowerCase ''movie.en.srt'') (asciiLowerCase (stripExtension ''Movie.mp4''))"
    "startsWith (asciiLowerCase ''movie.en.forced.srt'')
       (asciiLowerCase (stripExtension ''Movie.mp4''))"
    "\<not> startsWith (asciiLowerCase ''my_movie.srt'') (asciiLowerCase (stripExtension ''Movie.mp4''))"
    by code_simp+
  show "matchedSubs env (toLowerCase env (stripExtension ''Movie.mp4''))
          (map example_file [''movie.srt'', ''movie.en.srt'', ''movie.en.forced.srt'',
                             ''my_movie.srt''])
        = map example_file [''movie.srt'', ''movie.en.srt'', ''movie.en.forced.srt'']"
    unfolding matchedSubs_def Let_def
    by (simp add: names lowersAscii_eval [OF low] ascii tests)
qed

text \<open>A batch with two matching subtitles, one with another prefix and one in another directory.\<close>

theorem subtitle_matching_witness:
  "map st_fileHandle
     (v_subtitles
        (importVideo example_platform ''c1''
           [example_file ''A/Movie.mp4'', example_file ''A/movie.srt'',
            example_file ''A/movie.en.srt'', example_file ''A/my_movie.srt'',
            example_file ''B/movie.srt'']
           (indexFiles example_platform
              [example_file ''A/Movie.mp4'', example_file ''A/movie.srt'',
               example_file ''A/movie.en.srt'', example_file ''A/my_movie.srt'',
               example_file ''B/movie.srt''])
           0 (example_file ''A/Movie.mp4'')))
   = [FileObj (example_file ''A/movie.srt''), FileObj (example_file ''A/movie.en.srt'')]
   \<and> matchedSubs example_platform (toLowerCase example_platform (stripExtension ''Movie.mp4''))
          (map example_file [''movie.srt'', ''movie.en.srt'', ''movie.en.forced.srt'',
                             ''my_movie.srt''])
        = map example_file [''movie.srt'', ''movie.en.srt'', ''movie.en.forced.srt'']"
proof -
  let ?files = "[example_file ''A/Movie.mp4'', example_file ''A/movie.srt'',
            example_file ''A/movie.en.srt'', example_file ''A/my_movie.srt'',
            example_file ''B/movie.srt'']"
  have "map FileObj
         (filter (\<lambda>sub. \<not> isImage sub \<and> isSubtitleFile example_platform sub
                    \<and> dirOf sub = dirOf (example_file ''A/Movie.mp4'')
                    \<and> startsWith (toLowerCase example_platform (file_name sub))
                         (toLowerCase example_platform
                            (stripExtension (file_name (example_file ''A/Movie.mp4'')))))
            ?files)
        = [FileObj (example_file ''A/movie.srt''), FileObj (example_file ''A/movie.en.srt'')]"
    by code_simp
  with subtitle_matching [of example_platform "''c1''" ?files 0 "example_file ''A/Movie.mp4''"]
    lowersAscii_example
  show ?thesis by simp
qed

text \<open>
  Claim C5, as stated, at \<^verbatim>\<open>movie.fr.srt\<close>: the guess is \<^verbatim>\<open>fr\<close>, as the claim's example
  says, while the rule read on the stripped name \<^verbatim>\<open>movie.fr\<close> takes the segment
  \<^verbatim>\<open>movie\<close> and gives the default.
\<close>

theorem language_inference_counterexample:
  "guessLanguage example_platform ''movie.fr.srt'' = ''fr''
   \<and> language_of_stripped_name example_platform ''movie.fr.srt'' = ''en''"
  by code_simp

text \<open>
  Claim C5, amended. Each track of an ingested video carries the name of its matched
  subtitle file as label, the language guessed from that name, and the file. Whatever
  \<^verbatim>\<open>toLowerCase\<close> does, the guess is read off the lower-cased file name, extension
  included: when it has at least two periods, the guess is its second-to-last
  period-separated segment if that has two characters and \<^verbatim>\<open>en\<close> otherwise; when it has
  fewer than two periods, the guess is \<^verbatim>\<open>en\<close>. With a \<^verbatim>\<open>toLowerCase\<close> that folds ASCII
  names as the platform's does, \<^verbatim>\<open>movie.fr.srt\<close> gives \<^verbatim>\<open>fr\<close>, and \<^verbatim>\<open>movie.srt\<close> and
  \<^verbatim>\<open>movie.french.srt\<close> give \<^verbatim>\<open>en\<close>.
\<close>

theorem language_inference:
  "v_subtitles (importVideo env cid files (indexFiles env files) k video)
     = map (\<lambda>sub. \<lparr>label = file_name sub, language = guessLanguage env (file_name sub),
                    st_fileHandle = FileObj sub\<rparr>)
         (filter (\<lambda>sub. \<not> isImage sub \<and> isSubtitleFile env sub \<and> dirOf sub = dirOf video
                    \<and> startsWith (toLowerCase env (file_name sub))
                         (toLowerCase env (stripExtension (file_name video)))) files)
   \<and> (toLowerCase env nm = pre @ ''.'' @ seg @ ''.'' @ ext
        \<and> CHR ''.'' \<notin> set seg \<and> CHR ''.'' \<notin> set ext \<longrightarrow>
        guessLanguage env nm = (if length seg = 2 then seg else ''en''))
   \<and> (length (filter (\<lambda>x. x = CHR ''.'') (toLowerCase env nm')) < 2 \<longrightarrow>
        guessLanguage env nm' = ''en'')
   \<and> (lowersAscii env \<longrightarrow>
        guessLanguage env ''movie.fr.srt'' = ''fr''
        \<and> guessLanguage env ''movie.srt'' = ''en''
        \<and> guessLanguage env ''movie.french.srt'' = ''en'')"
proof (intro conjI impI)
  show "v_subtitles (importVideo env cid files (indexFiles env files) k video)
     = map (\<lambda>sub. \<lparr>label = file_name sub, language = guessLanguage env (file_name sub),
                    st_fileHandle = FileObj sub\<rparr>)
         (filter (\<lambda>sub. \<not> isImage sub \<and> isSubtitleFile env sub \<and> dirOf sub = dirOf video
                    \<and> startsWith (toLowerCase env (file_name sub))
                         (toLowerCase env (stripExtension (file_name video)))) files)"
    unfolding importVideo_subtitles
    by (rule map_cong) (simp_all add: subtitleTrack_def)
next
  assume "toLowerCase env nm = pre @ ''.'' @ seg @ ''.'' @ ext
        \<and> CHR ''.'' \<notin> set seg \<and> CHR ''.'' \<notin> set ext"
  then show "guessLanguage env nm = (if length seg = 2 then seg else ''en'')"
    using guessLanguage_two_periods [of env nm pre seg ext] by blast
next
  assume "length (filter (\<lambda>x. x = CHR ''.'') (toLowerCase env nm')) < 2"
  then show "guessLanguage env nm' = ''en''" by (rule guessLanguage_few_periods)
next
  assume low: "lowersAscii env"
  have "isAscii ''movie.fr.srt''" and "asciiLowerCase ''movie.fr.srt'' = ''movie.fr.srt''"
    by code_simp+
  then have e: "toLowerCase env ''movie.fr.srt'' = ''movie.fr.srt''"
    using lowersAscii_eval [OF low] by simp
  show "guessLanguage env ''movie.fr.srt'' = ''fr''"
    unfolding guessLanguage_def Let_def e by simp
next
  assume low: "lowersAscii env"
  have "isAscii ''movie.srt''" and "asciiLowerCase ''movie.srt'' = ''movie.srt''"
    by code_simp+
  then have e: "toLowerCase env ''movie.srt'' = ''movie.srt''"
    using lowersAscii_eval [OF low] by simp
  show "guessLanguage env ''movie.srt'' = ''en''"
    unfolding guessLanguage_def Let_def e by simp
next
  assume low: "lowersAscii env"
  have "isAscii ''movie.french.srt''"
    and "asciiLowerCase ''movie.french.srt'' = ''movie.french.srt''"
    by code_simp+
  then have e: "toLowerCase env ''movie.french.srt'' = ''movie.french.srt''"
    using lowersAscii_eval [OF low] by simp
  show "guessLanguage env ''movie.french.srt'' = ''en''"
    unfolding guessLanguage_def Let_def e by simp
qed

text \<open>
  The name \<^verbatim>\<open>Show.S01.PT.ass\<close>, the name \<^verbatim>\<open>fr.srt\<close> with a single period, and the
  claim's \<^verbatim>\<open>movie.fr.srt\<close>, on the sample platform.
\<close>

theorem language_inference_witness:
  "guessLanguage example_platform ''Show.S01.PT.ass'' = ''pt''
   \<and> guessLanguage example_platform ''fr.srt'' = ''en''
   \<and> guessLanguage example_platform ''movie.fr.srt'' = ''fr''"
proof -
  have a: "toLowerCase example_platform ''Show.S01.PT.ass'' = ''show.s01'' @ ''.'' @ ''pt'' @ ''.'' @ ''ass''
      \<and> CHR ''.'' \<notin> set ''pt'' \<and> CHR ''.'' \<notin> set ''ass''"
    by code_simp
  have b: "length (filter (\<lambda>x. x = CHR ''.'') (toLowerCase example_platform ''fr.srt'')) < 2"
    by code_simp
  from language_inference [of example_platform _ _ _ _ "''Show.S01.PT.ass''" "''show.s01''"
      "''pt''" "''ass''" "''fr.srt''"] a b lowersAscii_example
  have "guessLanguage example_platform ''Show.S01.PT.ass''
          = (if length ''pt'' = 2 then ''pt'' else ''en'')"
    and "guessLanguage example_platform ''fr.srt'' = ''en''"
    and "guessLanguage example_platform ''movie.fr.srt'' = ''fr''"
    by blast+
  then show ?thesis by simp
qed

text \<open>
  Claim C8. Whatever \<^verbatim>\<open>toLowerCase\<close> does in the sidecar lookup: without a metadata
  sidecar the metadata of an ingested video are the defaults: the file name up to its last period as title, empty plot, no tags. With a
  sidecar, the parser gives all three fields and each replaces the default whole: the
  title is the text of the title element (empty when there is none), the plot the text
  of the plot element or else of the outline element, the tags the non-empty texts of
  the genre elements followed by those of the tag elements. A merge takes each field from
  the parser output when it is present there and from the defaults otherwise.
\<close>

theorem metadata_merge:
  "(findNfo env files (dirOf video) (toLowerCase env (stripExtension (file_name video))) = None \<longrightarrow>
      v_metadata (importVideo env cid files maps k video)
        = \<lparr>title = stripExtension (file_name video), plot = [], tags = []\<rparr>)
   \<and> (findNfo env files (dirOf video) (toLowerCase env (stripExtension (file_name video))) = Some nfo \<longrightarrow>
      (\<exists>t p g. parseNFO (parseXml env nfo) = \<lparr>p_title = Some t, p_plot = Some p, p_tags = Some g\<rparr>
         \<and> v_metadata (importVideo env cid files maps k video) = \<lparr>title = t, plot = p, tags = g\<rparr>
         \<and> t = (case q_title (parseXml env nfo) of None \<Rightarrow> [] | Some x \<Rightarrow> x)
         \<and> p = (case q_plot (parseXml env nfo) of
                  None \<Rightarrow> (case q_outline (parseXml env nfo) of None \<Rightarrow> [] | Some y \<Rightarrow> y)
                | Some x \<Rightarrow> if x \<noteq> [] then x
                            else (case q_outline (parseXml env nfo) of None \<Rightarrow> [] | Some y \<Rightarrow> y))
         \<and> g = filter (\<lambda>x. x \<noteq> []) (q_genre (parseXml env nfo) @ q_tag (parseXml env nfo))))
   \<and> mergeMetadata m \<lparr>p_title = pt, p_plot = pp, p_tags = pg\<rparr>
       = \<lparr>title = (case pt of None \<Rightarrow> title m | Some x \<Rightarrow> x),
          plot = (case pp of None \<Rightarrow> plot m | Some x \<Rightarrow> x),
          tags = (case pg of None \<Rightarrow> tags m | Some x \<Rightarrow> x)\<rparr>"
  by (auto simp add: importVideo_def Let_def parseNFO_def mergeMetadata_def truthy_def
      split: option.splits)

text \<open>A batch with a video that has a sidecar and a video that has none.\<close>

theorem metadata_merge_witness:
  "map v_metadata
     (the (handleImportFiles example_platform (Some ''c1'')
        [example_file ''A/movie.mp4'', example_file ''A/movie.nfo'', example_file ''B/clip.mkv'']))
   = [\<lparr>title = ''Title'', plot = ''Outline'', tags = [''Drama'', ''4k'']\<rparr>,
      \<lparr>title = ''clip'', plot = [], tags = []\<rparr>]"
proof -
  let ?files = "[example_file ''A/movie.mp4'', example_file ''A/movie.nfo'',
                 example_file ''B/clip.mkv'']"
  let ?a = "example_file ''A/movie.mp4''"
  let ?b = "example_file ''B/clip.mkv''"
  have vids: "filter (isVideoFile example_platform) ?files = [?a, ?b]" by code_simp
  have fa: "findNfo example_platform ?files (dirOf ?a) (toLowerCase example_platform (stripExtension (file_name ?a)))
      = Some (example_file ''A/movie.nfo'')" by code_simp
  have fb: "findNfo example_platform ?files (dirOf ?b) (toLowerCase example_platform (stripExtension (file_name ?b))) = None"
    by code_simp
  have tb: "stripExtension (file_name ?b) = ''clip''" by code_simp
  from metadata_merge [of example_platform ?files ?a "''c1''" "indexFiles example_platform ?files" 0
      "example_file ''A/movie.nfo''"] fa
  have ma: "v_metadata (importVideo example_platform ''c1'' ?files
                (indexFiles example_platform ?files) 0 ?a)
      = \<lparr>title = ''Title'', plot = ''Outline'', tags = [''Drama'', ''4k'']\<rparr>"
    by (auto simp add: example_platform_def)
  from metadata_merge [of example_platform ?files ?b "''c1''" "indexFiles example_platform ?files" "Suc 0"] fb tb
  have mb: "v_metadata (importVideo example_platform ''c1'' ?files
                (indexFiles example_platform ?files) (Suc 0) ?b)
      = \<lparr>title = ''clip'', plot = [], tags = []\<rparr>"
    by simp
  have "truthy (Some ''c1'')" by (simp add: truthy_def)
  then have "handleImportFiles example_platform (Some ''c1'') ?files =
     Some (map (\<lambda>(k, f). importVideo example_platform ''c1'' ?files
                  (indexFiles example_platform ?files) k f)
            (enumerate 0 [?a, ?b]))"
    using handleImportFiles_videos [of "Some ''c1''" example_platform ?files]
    unfolding vids by simp
  then show ?thesis
    by (simp add: ma mb)
qed

section \<open>Properties of the index export and import\<close>

text \<open>
  Claim C7. Importing an exported index loads a state with the same collections and, video
  by video in the same order, the same id, collection id, file name, relative path,
  thumbnail URL, metadata (title, plot and tags), size and subtitle labels and languages;
  the video handles are absent and the subtitle handles are no longer files. Exporting
  and importing the loaded state gives that state again.
\<close>

theorem export_import_roundtrip:
  "\<exists>st'. handleImportData (handleExportData st)
            = (Some st', ''Index loaded. Please use 'Update Paths' to re-link video files.'')
     \<and> reducer s0 (LOAD_STATE st') = st'
     \<and> collections st' = collections st
     \<and> map v_id (videos st') = map v_id (videos st)
     \<and> map v_collectionId (videos st') = map v_collectionId (videos st)
     \<and> map v_fileName (videos st') = map v_fileName (videos st)
     \<and> map v_relativePath (videos st') = map v_relativePath (videos st)
     \<and> map v_thumbnailUrl (videos st') = map v_thumbnailUrl (videos st)
     \<and> map v_metadata (videos st') = map v_metadata (videos st)
     \<and> map v_size (videos st') = map v_size (videos st)
     \<and> map (\<lambda>v. map label (v_subtitles v)) (videos st')
         = map (\<lambda>v. map label (v_subtitles v)) (videos st)
     \<and> map (\<lambda>v. map language (v_subtitles v)) (videos st')
         = map (\<lambda>v. map language (v_subtitles v)) (videos st)
     \<and> (\<forall>v \<in> set (videos st'). v_fileHandle v = None
           \<and> (\<forall>t \<in> set (v_subtitles v). st_fileHandle t = EmptyObj))
     \<and> fst (handleImportData (handleExportData st')) = Some st'"
proof -
  let ?st' = "\<lparr>collections = collections st,
               videos = map (\<lambda>v. json_video (v\<lparr>v_fileHandle := None\<rparr>)) (videos st)\<rparr>"
  have imp: "handleImportData (handleExportData st)
            = (Some ?st', ''Index loaded. Please use 'Update Paths' to re-link video files.'')"
    by (simp add: handleImportData_def handleExportData_def JSON_stringify_def Let_def comp_def)
  have again: "fst (handleImportData (handleExportData ?st')) = Some ?st'"
    by (simp add: handleImportData_def handleExportData_def JSON_stringify_def Let_def comp_def
        json_video_def json_track_def json_ref_def)
  have fields: "map v_id (videos ?st') = map v_id (videos st)"
    "map v_collectionId (videos ?st') = map v_collectionId (videos st)"
    "map v_fileName (videos ?st') = map v_fileName (videos st)"
    "map v_relativePath (videos ?st') = map v_relativePath (videos st)"
    "map v_thumbnailUrl (videos ?st') = map v_thumbnailUrl (videos st)"
    "map v_metadata (videos ?st') = map v_metadata (videos st)"
    "map v_size (videos ?st') = map v_size (videos st)"
    by (simp_all add: json_video_def comp_def)
  have subs: "map (\<lambda>v. map label (v_subtitles v)) (videos ?st')
         = map (\<lambda>v. map label (v_subtitles v)) (videos st)"
    "map (\<lambda>v. map language (v_subtitles v)) (videos ?st')
         = map (\<lambda>v. map language (v_subtitles v)) (videos st)"
    by (simp_all add: json_video_def json_track_def comp_def)
  have handles: "\<forall>v \<in> set (videos ?st'). v_fileHandle v = None
           \<and> (\<forall>t \<in> set (v_subtitles v). st_fileHandle t = EmptyObj)"
    by (auto simp add: json_video_def json_track_def json_ref_def)
  have load: "reducer s0 (LOAD_STATE ?st') = ?st'" by simp
  have cols: "collections ?st' = collections st" by simp
  from imp load cols fields subs handles again show ?thesis
    by blast
qed

text \<open>A state with one collection and one video that has a live handle and a French subtitle.\<close>

theorem export_import_roundtrip_witness:
  "\<exists>st'. fst (handleImportData (handleExportData
        \<lparr>collections = [\<lparr>c_id = ''c1'', c_name = ''Films'', c_thumbnailUrl = None\<rparr>],
         videos = [(example_asset ''A/movie.mp4'')
                     \<lparr>v_fileHandle := Some (FileObj (example_file ''A/movie.mp4'')),
                      v_subtitles := [subtitleTrack example_platform (example_file ''A/movie.fr.srt'')]\<rparr>]\<rparr>))
       = Some st'
     \<and> collections st' = [\<lparr>c_id = ''c1'', c_name = ''Films'', c_thumbnailUrl = None\<rparr>]
     \<and> map v_relativePath (videos st') = [''A/movie.mp4'']
     \<and> map (\<lambda>v. map language (v_subtitles v)) (videos st') = [[''fr'']]
     \<and> map v_fileHandle (videos st') = [None]"
proof -
  let ?S = "\<lparr>collections = [\<lparr>c_id = ''c1'', c_name = ''Films'', c_thumbnailUrl = None\<rparr>],
         videos = [(example_asset ''A/movie.mp4'')
                     \<lparr>v_fileHandle := Some (FileObj (example_file ''A/movie.mp4'')),
                      v_subtitles := [subtitleTrack example_platform (example_file ''A/movie.fr.srt'')]\<rparr>]\<rparr>"
  from export_import_roundtrip [of ?S] obtain st' where
    imp: "fst (handleImportData (handleExportData ?S)) = Some st'"
    and cols: "collections st' = collections ?S"
    and paths: "map v_relativePath (videos st') = map v_relativePath (videos ?S)"
    and langs: "map (\<lambda>v. map language (v_subtitles v)) (videos st')
                 = map (\<lambda>v. map language (v_subtitles v)) (videos ?S)"
    and handles: "\<forall>v \<in> set (videos st'). v_fileHandle v = None
                    \<and> (\<forall>t \<in> set (v_subtitles v). st_fileHandle t = EmptyObj)"
    by fastforce
  have p: "map v_relativePath (videos ?S) = [''A/movie.mp4'']"
    by (simp add: example_asset_def)
  have "guessLanguage example_platform ''movie.fr.srt'' = ''fr''" by code_simp
  then have l: "map (\<lambda>v. map language (v_subtitles v)) (videos ?S) = [[''fr'']]"
    by (simp add: subtitleTrack_def example_file_def)
  from paths p obtain v where v: "videos st' = [v]"
    by (cases "videos st'") auto
  with handles have h: "map v_fileHandle (videos st') = [None]" by simp
  from imp cols paths langs h p l show ?thesis by auto
qed

end
